(* ===== verification/Http_Prelude.thy ===== *)
theory Http_Prelude
  imports Main "HOL-Library.Word" "HOL-Library.Sublist" "HOL-Library.Char_ord"
    "HOL-Library.List_Lexorder"
begin

section \<open>Prelude: types, automation and lemmas shared by the components\<close>

text \<open>
  What every component of the development uses: names for the machine integers of the
  code (\<open>uint8_t\<close> to \<open>uint64_t\<close>), the result type of operations that may throw, the
  few operations of \<open>std::string\<close> the code calls, the closure of a step relation
  together with a locale that lifts a one-step invariant to all reachable states, and
  the collections of simplification rules that the components fill.
\<close>

subsection \<open>Machine integers and strings\<close>

type_synonym u8 = "8 word"
type_synonym u16 = "16 word"
type_synonym u32 = "32 word"
type_synonym u64 = "64 word"

named_theorems session_simps "the small operations processRequest is composed of"
named_theorems start_simps "a session from its constructor to its first read"
named_theorems server_simps "accepting a connection and storing a session"

text \<open>
  \<open>s[0]\<close> on a \<open>std::string\<close>: the standard defines the access at position \<open>size()\<close>,
  which yields the null character, so the access is defined on the empty string too.
\<close>

definition char_at0 :: "string \<Rightarrow> char" where
  "char_at0 s = (case s of [] \<Rightarrow> CHR 0x00 | c # _ \<Rightarrow> c)"

lemma char_at0_simps [simp]:
  "char_at0 [] = CHR 0x00"
  "char_at0 (c # cs) = c"
  by (simp_all add: char_at0_def)

text \<open>\<open>s.find(needle) != std::string::npos\<close>.\<close>

fun str_contains :: "string \<Rightarrow> string \<Rightarrow> bool" where
  "str_contains needle [] = (needle = [])"
| "str_contains needle (c # cs) =
     (take (length needle) (c # cs) = needle \<or> str_contains needle cs)"

lemma str_contains_iff: "str_contains needle s \<longleftrightarrow> sublist needle s"
proof (induction s)
  case Nil
  then show ?case by simp
next
  case (Cons c cs)
  have "(take (length needle) (c # cs) = needle) = prefix needle (c # cs)"
    by (metis append_eq_conv_conj prefix_def take_is_prefix)
  with Cons show ?case by (simp add: sublist_Cons_right)
qed

text \<open>\<open>s.find(c) != npos\<close> for a single character.\<close>

definition str_has :: "char \<Rightarrow> string \<Rightarrow> bool" where
  "str_has c s = (c \<in> set s)"

text \<open>The decimal digits of a number, as streams print it.\<close>

fun digits :: "nat \<Rightarrow> string" where
  "digits n = (if n < 10 then [char_of (48 + n)] else digits (n div 10) @ [char_of (48 + n mod 10)])"

subsection \<open>Counters\<close>

lemma unat_word_inc:
  fixes w :: "'a::len word"
  shows "unat (w + 1) = (unat w + 1) mod 2 ^ LENGTH('a)"
  by (simp add: unat_word_ariths)

lemma unat_inc_less:
  fixes i n :: "'a::len word"
  assumes "i < n"
  shows "unat (i + 1) = unat i + 1"
proof -
  have "unat i + 1 \<le> unat n" using assms by (simp add: word_less_nat_alt)
  also have "unat n < 2 ^ LENGTH('a)" by (rule unsigned_less)
  finally show ?thesis by (simp add: unat_word_ariths)
qed

lemma unat_of_nat_u64: "n < 2 ^ 64 \<Longrightarrow> unat (of_nat n :: u64) = n"
  by (simp add: unsigned_of_nat take_bit_nat_eq_self)

lemma word_inc_dec [simp]:
  fixes w :: "'a::len word"
  shows "w + 1 - 1 = w" and "w - 1 + 1 = w"
  by simp_all

subsection \<open>Reachable states and invariants\<close>

text \<open>
  The states a system can get into: the initial ones, and those a step leads to.
\<close>

inductive reach :: "('s \<Rightarrow> bool) \<Rightarrow> ('s \<Rightarrow> 's \<Rightarrow> bool) \<Rightarrow> 's \<Rightarrow> bool"
  for start :: "'s \<Rightarrow> bool" and step :: "'s \<Rightarrow> 's \<Rightarrow> bool" where
  reach_start: "start s \<Longrightarrow> reach start step s"
| reach_step: "reach start step s \<Longrightarrow> step s t \<Longrightarrow> reach start step t"

text \<open>
  A component that is a step relation provides the two laws of this locale for its
  invariant; the lemma holds for each of them by its interpretation.
\<close>

locale invariant_system =
  fixes start :: "'s \<Rightarrow> bool"
    and step :: "'s \<Rightarrow> 's \<Rightarrow> bool"
    and inv :: "'s \<Rightarrow> bool"
  assumes inv_start: "start s \<Longrightarrow> inv s"
    and inv_step: "inv s \<Longrightarrow> step s t \<Longrightarrow> inv t"
begin

lemma reach_inv: "reach start step s \<Longrightarrow> inv s"
  by (induction rule: reach.induct) (auto intro: inv_start inv_step)

end

text \<open>
  A detailed system refines an abstract one through an abstraction function: initial states
  are mapped to initial states, and a step is mapped to a step or to nothing. The function
  needs to be right only where the invariant holds.
\<close>

locale refinement_system = invariant_system start step inv
  for start :: "'s \<Rightarrow> bool" and step :: "'s \<Rightarrow> 's \<Rightarrow> bool" and inv :: "'s \<Rightarrow> bool" +
  fixes abs_start :: "'a \<Rightarrow> bool"
    and abs_step :: "'a \<Rightarrow> 'a \<Rightarrow> bool"
    and abs :: "'s \<Rightarrow> 'a"
  assumes start_abs: "start s \<Longrightarrow> abs_start (abs s)"
    and step_abs: "inv s \<Longrightarrow> step s t \<Longrightarrow> abs_step (abs s) (abs t) \<or> abs t = abs s"
begin

lemma reach_abs: "reach start step s \<Longrightarrow> reach abs_start abs_step (abs s)"
proof (induction rule: reach.induct)
  case (reach_step s t)
  with step_abs [OF reach_inv] show ?case by (metis reach.reach_step)
qed (auto intro: reach.reach_start start_abs)

end

end
