(* ===== verification/Std_Containers.thy ===== *)
theory Std_Containers
  imports Http_Prelude "HOL-Library.AList"
begin

section \<open>The map containers of the standard library\<close>

text \<open>
  The code keeps headers and parameters in \<open>std::map<std::string, std::string>\<close> and the
  children of a path node in \<open>std::unordered_map<std::string, HttpPathNode*>\<close>. Both are
  used through \<open>m[k] = v\<close>, \<open>m.find(k)\<close> and iteration. The contract they share is the
  locale \<open>map_container\<close>; \<open>std_map\<close> is a list strictly sorted by key, because its
  iteration order is observable (response headers are set in that order), and
  \<open>unordered_map\<close> a list with distinct keys in insertion order.
\<close>

subsection \<open>Filling a map in a loop\<close>

text \<open>\<open>for (auto p : kvs) m[p.key] = p.value;\<close>\<close>

fun put_all :: "('k \<Rightarrow> 'v \<Rightarrow> 'm \<Rightarrow> 'm) \<Rightarrow> ('k \<times> 'v) list \<Rightarrow> 'm \<Rightarrow> 'm" where
  "put_all put [] m = m"
| "put_all put ((k, v) # kvs) m = put_all put kvs (put k v m)"

locale map_container =
  fixes empty :: "'m"
    and put :: "'k \<Rightarrow> 'v \<Rightarrow> 'm \<Rightarrow> 'm"
    and find :: "'m \<Rightarrow> 'k \<Rightarrow> 'v option"
    and invar :: "'m \<Rightarrow> bool"
  assumes invar_empty: "invar empty"
    and invar_put: "invar m \<Longrightarrow> invar (put k v m)"
    and find_empty: "find empty k = None"
    and find_put: "invar m \<Longrightarrow> find (put k v m) k' = (if k' = k then Some v else find m k')"
begin

lemma invar_put_all: "invar m \<Longrightarrow> invar (put_all put kvs m)"
  by (induction kvs arbitrary: m) (auto simp: invar_put)

text \<open>The last value stored under a key is the one found; other keys keep theirs.\<close>

lemma find_put_all:
  "invar m \<Longrightarrow> find (put_all put kvs m) k =
     (case map_of (rev kvs) k of None \<Rightarrow> find m k | Some v \<Rightarrow> Some v)"
proof (induction kvs arbitrary: m)
  case Nil
  then show ?case by simp
next
  case (Cons kv kvs)
  obtain a b where kv: "kv = (a, b)" by (cases kv)
  from Cons.prems have "invar (put a b m)" by (rule invar_put)
  with Cons.IH [of "put a b m"] Cons.prems show ?case
    by (auto simp: kv find_put map_add_def split: option.splits)
qed

lemma find_put_all_empty: "find (put_all put kvs empty) k = map_of (rev kvs) k"
  by (simp add: find_put_all [OF invar_empty] find_empty split: option.splits)

end

subsection \<open>\<open>std::map\<close>: sorted by key\<close>

type_synonym ('k, 'v) std_map = "('k \<times> 'v) list"

fun std_map_put :: "'k::linorder \<Rightarrow> 'v \<Rightarrow> ('k, 'v) std_map \<Rightarrow> ('k, 'v) std_map" where
  "std_map_put k v [] = [(k, v)]"
| "std_map_put k v ((k', v') # m) =
     (if k < k' then (k, v) # (k', v') # m
      else if k = k' then (k, v) # m
      else (k', v') # std_map_put k v m)"

definition std_map_find :: "('k, 'v) std_map \<Rightarrow> 'k \<Rightarrow> 'v option" where
  "std_map_find m k = map_of m k"

definition std_map_invar :: "('k::linorder, 'v) std_map \<Rightarrow> bool" where
  "std_map_invar m = sorted_wrt (<) (map fst m)"

lemma fst_std_map_put: "fst ` set (std_map_put k v m) = insert k (fst ` set m)"
  by (induction k v m rule: std_map_put.induct) auto

lemma std_map_invar_put: "std_map_invar m \<Longrightarrow> std_map_invar (std_map_put k v m)"
proof (induction m)
  case Nil
  then show ?case by (simp add: std_map_invar_def)
next
  case (Cons kv m)
  obtain a b where kv: "kv = (a, b)" by (cases kv)
  from Cons show ?case
    using fst_std_map_put [of k v m] by (auto simp: kv std_map_invar_def)
qed

lemma std_map_find_put:
  "std_map_invar m \<Longrightarrow>
    std_map_find (std_map_put k v m) k' = (if k' = k then Some v else std_map_find m k')"
proof (induction m)
  case Nil
  then show ?case by (simp add: std_map_find_def)
next
  case (Cons kv m)
  obtain a b where kv: "kv = (a, b)" by (cases kv)
  from Cons show ?case by (auto simp: kv std_map_invar_def std_map_find_def)
qed

interpretation std_map: map_container "[]" std_map_put std_map_find std_map_invar
  by unfold_locales
    (auto simp: std_map_invar_put std_map_find_put, simp_all add: std_map_invar_def std_map_find_def)

text \<open>A sorted map is determined by what its keys are bound to.\<close>

lemma std_map_ext:
  assumes "std_map_invar m" and "std_map_invar m'" and "std_map_find m = std_map_find m'"
  shows "m = m'"
proof -
  have sd: "sorted (map fst n) \<and> distinct (map fst n)" if "std_map_invar n" for n :: "('a, 'b) std_map"
    using that by (simp add: std_map_invar_def strict_sorted_iff)
  have "map_of m = map_of m'" using assms(3) by (simp add: std_map_find_def fun_eq_iff)
  then have "p \<in> set m \<longleftrightarrow> p \<in> set m'" for p
    using sd [OF assms(1)] sd [OF assms(2)] by (cases p) (metis map_of_eq_Some_iff)
  then have "set m = set m'" by blast
  then show ?thesis
    using sd [OF assms(1)] sd [OF assms(2)]
    by (intro map_sorted_distinct_set_unique [where f = fst]) (auto simp: distinct_map)
qed

subsection \<open>\<open>std::unordered_map\<close>\<close>

type_synonym ('k, 'v) unordered_map = "('k \<times> 'v) list"

definition unordered_put :: "'k \<Rightarrow> 'v \<Rightarrow> ('k, 'v) unordered_map \<Rightarrow> ('k, 'v) unordered_map" where
  "unordered_put k v m = AList.update k v m"

definition unordered_find :: "('k, 'v) unordered_map \<Rightarrow> 'k \<Rightarrow> 'v option" where
  "unordered_find m k = map_of m k"

definition unordered_invar :: "('k, 'v) unordered_map \<Rightarrow> bool" where
  "unordered_invar m = distinct (map fst m)"

interpretation unordered: map_container "[]" unordered_put unordered_find unordered_invar
  by unfold_locales
    (simp_all add: unordered_invar_def unordered_put_def unordered_find_def
      distinct_update update_conv')

lemma unordered_find_mem:
  "unordered_invar m \<Longrightarrow> unordered_find m k = Some v \<longleftrightarrow> (k, v) \<in> set m"
  by (simp add: unordered_invar_def unordered_find_def)

end
