(* ===== verification/Http_Router.thy ===== *)
theory Http_Router
  imports Std_Containers
begin

section \<open>The path tree (src/src/http_router.h)\<close>

text \<open>
  \<open>HttpRouter<T>\<close> keeps registered handlers in a tree of heap-allocated \<open>HttpPathNode<T>\<close>s,
  one level per path segment. The nodes point to each other, \<open>insert\<close> updates them in place
  and \<open>search\<close> compares node pointers, so the model keeps an explicit heap: a map from
  addresses to node records, the address the next \<open>new\<close> returns, and the address of the
  root. Address \<open>0\<close> is \<open>nullptr\<close>. Following a pointer to no node gives the error
  \<open>Bad_Pointer\<close>; the lemmas show that a well-formed tree never does.

  How a path string is cut into segments is Boost.URL's \<open>segments_view\<close>: a function
  parameter \<open>segments_view\<close>, whose \<open>Inl\<close> value is the exception its constructor throws.

  The second half relates the pointer structure to an abstract routing table (which
  segment lists are nodes, which of them carry data), states the contract of a routing
  table as the locale \<open>routing\<close> and interprets it on the pointer structure.
\<close>

subsection \<open>Data\<close>

type_synonym addr = nat

record 'd http_path_node =
  node_path :: string
  node_data :: "'d option"
  node_children :: "(string, addr) unordered_map"

record 'd http_router =
  heap :: "addr \<rightharpoonup> 'd http_path_node"
  next_addr :: addr
  root :: addr

datatype router_error =
    Runtime_Error string
  | Url_Error string
  | Bad_Pointer

subsection \<open>Operations\<close>

definition new_HttpPathNode ::
    "string \<Rightarrow> 'd option \<Rightarrow> 'd http_router \<Rightarrow> addr \<times> 'd http_router" where
  "new_HttpPathNode path d r =
     (next_addr r,
      r\<lparr>heap := (heap r)(next_addr r \<mapsto> \<lparr>node_path = path, node_data = d, node_children = []\<rparr>),
        next_addr := Suc (next_addr r)\<rparr>)"

definition new_HttpRouter :: "'d http_router" where
  "new_HttpRouter =
     (case new_HttpPathNode [] None \<lparr>heap = Map.empty, next_addr = 1, root = 0\<rparr> of
        (a, r) \<Rightarrow> r\<lparr>root := a\<rparr>)"

text \<open>The loop of \<open>insert\<close>: walk down the tree, allocating the nodes that are missing.\<close>

fun insert_loop ::
    "string list \<Rightarrow> addr \<Rightarrow> 'd http_router \<Rightarrow> (addr \<times> 'd http_router) option" where
  "insert_loop [] next_node r = Some (next_node, r)"
| "insert_loop (key # iter) next_node r =
     (if key = [] then Some (next_node, r)
      else case heap r next_node of
        None \<Rightarrow> None
      | Some nd \<Rightarrow>
          (case unordered_find (node_children nd) key of
             Some child \<Rightarrow> insert_loop iter child r
           | None \<Rightarrow>
               (case new_HttpPathNode key None r of (new_node, r') \<Rightarrow>
                  insert_loop iter new_node
                    (r'\<lparr>heap := (heap r')(next_node \<mapsto>
                        nd\<lparr>node_children := unordered_put key new_node (node_children nd)\<rparr>)\<rparr>))))"

definition set_data :: "addr \<Rightarrow> 'd \<Rightarrow> 'd http_router \<Rightarrow> 'd http_router option" where
  "set_data a d r =
     (case heap r a of None \<Rightarrow> None
      | Some nd \<Rightarrow> Some (r\<lparr>heap := (heap r)(a \<mapsto> nd\<lparr>node_data := Some d\<rparr>)\<rparr>))"

text \<open>The part of \<open>insert\<close> after the checks, on the segments of the path.\<close>

definition insert_segments :: "string list \<Rightarrow> 'd \<Rightarrow> 'd http_router \<Rightarrow> 'd http_router option" where
  "insert_segments segments d r =
     (if segments = [] then set_data (root r) d r
      else case insert_loop segments (root r) r of
        None \<Rightarrow> None
      | Some (next_node, r') \<Rightarrow> set_data next_node d r')"

definition router_insert ::
    "(string \<Rightarrow> string + string list) \<Rightarrow> string \<Rightarrow> 'd option \<Rightarrow> 'd http_router
       \<Rightarrow> router_error + 'd http_router" where
  "router_insert segments_view path data r =
     (case data of
        None \<Rightarrow> Inl (Runtime_Error ''data should be not empty'')
      | Some d \<Rightarrow>
          if char_at0 path \<noteq> CHR ''/'' 
          then Inl (Runtime_Error (''path should start with '' @ [CHR 0x27, CHR ''/'', CHR 0x27]))
          else if str_contains ''..'' path then Inl (Runtime_Error ''path is invalid'')
          else (case segments_view path of
                  Inl e \<Rightarrow> Inl (Url_Error e)
                | Inr segments \<Rightarrow>
                    (case insert_segments segments d r of
                       None \<Rightarrow> Inl Bad_Pointer | Some r' \<Rightarrow> Inr r')))"

fun search_loop :: "string list \<Rightarrow> addr \<Rightarrow> 'd http_router \<Rightarrow> addr option" where
  "search_loop [] current_node r = Some current_node"
| "search_loop (key # iter) current_node r =
     (if key = [] then Some current_node
      else case heap r current_node of
        None \<Rightarrow> None
      | Some nd \<Rightarrow>
          (case unordered_find (node_children nd) key of
             None \<Rightarrow> Some current_node
           | Some child \<Rightarrow> search_loop iter child r))"

definition read_data :: "addr \<Rightarrow> 'd http_router \<Rightarrow> 'd option option" where
  "read_data a r = map_option node_data (heap r a)"

definition search_segments :: "string list \<Rightarrow> 'd http_router \<Rightarrow> 'd option option" where
  "search_segments segments r =
     (if segments = [] then read_data (root r) r
      else case search_loop segments (root r) r of
        None \<Rightarrow> None
      | Some current_node \<Rightarrow>
          if current_node = root r then Some None else read_data current_node r)"

definition search_path ::
    "(string \<Rightarrow> string + string list) \<Rightarrow> string \<Rightarrow> 'd http_router \<Rightarrow> router_error + 'd option" where
  "search_path segments_view path r =
     (if length path = 0
      then (case read_data (root r) r of None \<Rightarrow> Inl Bad_Pointer | Some d \<Rightarrow> Inr d)
      else if char_at0 path \<noteq> CHR ''/'' then Inr None
      else (case segments_view path of
              Inl e \<Rightarrow> Inl (Url_Error e)
            | Inr segments \<Rightarrow>
                if segments = []
                then (case read_data (root r) r of None \<Rightarrow> Inl Bad_Pointer | Some d \<Rightarrow> Inr d)
                else (case search_loop segments (root r) r of
                        None \<Rightarrow> Inl Bad_Pointer
                      | Some current_node \<Rightarrow>
                          if current_node = root r then Inr None
                          else (case read_data current_node r of
                                  None \<Rightarrow> Inl Bad_Pointer | Some d \<Rightarrow> Inr d))))"

text \<open>
  \<open>delete node\<close> runs \<open>~HttpPathNode\<close>, which deletes the children one after the other, and
  then frees the node. Deleting an address that holds no node (freed twice, or never
  allocated) is undefined behaviour, here \<open>None\<close>. The first argument bounds the depth of
  the recursion, which only stops because the nodes form a tree: \<open>next_addr\<close>, the number
  of nodes ever allocated plus one, is enough for a well-formed router.
\<close>

type_synonym 'd node_heap = "addr \<rightharpoonup> 'd http_path_node"

fun delete_node :: "nat \<Rightarrow> addr \<Rightarrow> 'd node_heap \<Rightarrow> 'd node_heap option"
  and delete_children :: "nat \<Rightarrow> addr list \<Rightarrow> 'd node_heap \<Rightarrow> 'd node_heap option" where
  "delete_node 0 a h = None"
| "delete_node (Suc n) a h =
     (case h a of None \<Rightarrow> None
      | Some nd \<Rightarrow>
          (case delete_children n (map snd (node_children nd)) h of
             None \<Rightarrow> None | Some h' \<Rightarrow> Some (h'(a := None))))"
| "delete_children n [] h = Some h"
| "delete_children n (c # cs) h =
     (case delete_node n c h of None \<Rightarrow> None | Some h' \<Rightarrow> delete_children n cs h')"

definition delete_HttpRouter :: "'d http_router \<Rightarrow> 'd http_router option" where
  "delete_HttpRouter r =
     (if root r \<noteq> 0
      then (case delete_node (next_addr r) (root r) (heap r) of
              None \<Rightarrow> None | Some h \<Rightarrow> Some (r\<lparr>heap := h, root := 0\<rparr>))
      else Some r)"

subsection \<open>The abstract routing table\<close>

text \<open>
  A routing table knows which segment lists are nodes of the tree and which carry data.
  Only the segments before the first empty one count: both loops stop there.
\<close>

record 'd route_table =
  rt_node :: "string list \<Rightarrow> bool"
  rt_data :: "string list \<rightharpoonup> 'd"

definition key_prefix :: "string list \<Rightarrow> string list" where
  "key_prefix segments = takeWhile (\<lambda>s. s \<noteq> []) segments"

lemma key_prefix_simps [simp]:
  "key_prefix [] = []"
  "key_prefix ([] # ks) = []"
  "k \<noteq> [] \<Longrightarrow> key_prefix (k # ks) = k # key_prefix ks"
  by (simp_all add: key_prefix_def)

definition route_empty :: "'d route_table" where
  "route_empty = \<lparr>rt_node = (\<lambda>ks. ks = []), rt_data = Map.empty\<rparr>"

definition route_insert :: "string list \<Rightarrow> 'd \<Rightarrow> 'd route_table \<Rightarrow> 'd route_table" where
  "route_insert ks d t =
     \<lparr>rt_node = (\<lambda>xs. rt_node t xs \<or> prefix xs ks), rt_data = (rt_data t)(ks \<mapsto> d)\<rparr>"

lemma route_insert_sels [simp]:
  "rt_node (route_insert ks d t) xs = (rt_node t xs \<or> prefix xs ks)"
  "rt_data (route_insert ks d t) = (rt_data t)(ks \<mapsto> d)"
  by (simp_all add: route_insert_def)

definition longest_node :: "(string list \<Rightarrow> bool) \<Rightarrow> string list \<Rightarrow> string list" where
  "longest_node P ks = last (filter P (prefixes ks))"

definition route_search :: "string list \<Rightarrow> 'd route_table \<Rightarrow> 'd option" where
  "route_search segments t =
     (if segments = [] then rt_data t []
      else (let m = longest_node (rt_node t) (key_prefix segments)
            in if m = [] then None else rt_data t m))"

lemma longest_node_eq:
  assumes "P m" and "prefix m ks"
    and "\<And>m'. prefix m' ks \<Longrightarrow> P m' \<Longrightarrow> length m' \<le> length m"
  shows "longest_node P ks = m"
proof -
  from assms(2) obtain zs where zs: "ks = m @ zs" by (auto simp: prefix_def)
  have "filter P (map ((@) m) (tl (prefixes zs))) = []"
  proof (rule filter_False, intro ballI notI)
    fix q assume q: "q \<in> set (map ((@) m) (tl (prefixes zs)))" and "P q"
    then obtain y where y: "q = m @ y" "y \<in> set (tl (prefixes zs))" by auto
    then have "y \<noteq> []" by (cases zs) auto
    from y have "prefix y zs" by (metis in_set_prefixes list.set_sel(2) list.sel(2))
    with y zs have "prefix q ks" by simp
    from assms(3) [OF this \<open>P q\<close>] y \<open>y \<noteq> []\<close> show False by simp
  qed
  moreover have "\<exists>ps. prefixes m = ps @ [m]"
    by (cases m rule: rev_cases) auto
  ultimately show ?thesis
    using assms(1) by (auto simp: longest_node_def zs prefixes_append)
qed

lemma longest_node_props:
  assumes "P []"
  shows "P (longest_node P ks)" and "prefix (longest_node P ks) ks"
proof -
  have "[] \<in> set (filter P (prefixes ks))" using assms by simp
  then have "last (filter P (prefixes ks)) \<in> set (filter P (prefixes ks))"
    by (intro last_in_set) (metis empty_iff list.set(1))
  then show "P (longest_node P ks)" and "prefix (longest_node P ks) ks"
    by (auto simp: longest_node_def)
qed

lemma longest_node_cong:
  "(\<And>xs. prefix xs ks \<Longrightarrow> P xs = Q xs) \<Longrightarrow> longest_node P ks = longest_node Q ks"
  unfolding longest_node_def by (auto intro!: arg_cong [where f = last] filter_cong)

subsection \<open>The contract of a routing table\<close>

text \<open>
  Nodes are closed under prefixes, the root is one, and only nodes carry data.
\<close>

definition table_closed :: "'d route_table \<Rightarrow> bool" where
  "table_closed t \<longleftrightarrow> rt_node t []
     \<and> (\<forall>xs ys. rt_node t (xs @ ys) \<longrightarrow> rt_node t xs)
     \<and> (\<forall>ks. rt_data t ks \<noteq> None \<longrightarrow> rt_node t ks)"

text \<open>Registering a sequence of handlers, stopping at a failure.\<close>

fun register_all :: "(string list \<Rightarrow> 'd \<Rightarrow> 'r \<Rightarrow> 'r option) \<Rightarrow> (string list \<times> 'd) list \<Rightarrow> 'r \<Rightarrow> 'r option" where
  "register_all reg [] r = Some r"
| "register_all reg ((segments, d) # regs) r =
     (case reg segments d r of None \<Rightarrow> None | Some r' \<Rightarrow> register_all reg regs r')"

text \<open>
  A provider of routing tables: \<open>register\<close> and \<open>lookup\<close> are total on its states and act
  on the abstract table as \<open>route_insert\<close> and \<open>route_search\<close>. What a client of the router
  can rely on is proved here once, from these laws.
\<close>

locale routing =
  fixes new :: "'r"
    and register :: "string list \<Rightarrow> 'd \<Rightarrow> 'r \<Rightarrow> 'r option"
    and lookup :: "string list \<Rightarrow> 'r \<Rightarrow> 'd option option"
    and table :: "'r \<Rightarrow> 'd route_table"
    and ok :: "'r \<Rightarrow> bool"
  assumes ok_new: "ok new"
    and table_new: "table new = route_empty"
    and closed: "ok r \<Longrightarrow> table_closed (table r)"
    and register_ok: "ok r \<Longrightarrow> \<exists>r'. register segments d r = Some r' \<and> ok r'
          \<and> table r' = route_insert (key_prefix segments) d (table r)"
    and lookup_ok: "ok r \<Longrightarrow> lookup segments r = Some (route_search segments (table r))"
begin

lemma registerD:
  assumes "ok r" and "register segments d r = Some r'"
  shows "ok r'" and "table r' = route_insert (key_prefix segments) d (table r)"
  using register_ok [OF assms(1), of segments d] assms(2) by auto

lemma node_root: "ok r \<Longrightarrow> rt_node (table r) []"
  using closed by (auto simp: table_closed_def)

lemma node_prefix: "ok r \<Longrightarrow> rt_node (table r) ks \<Longrightarrow> prefix xs ks \<Longrightarrow> rt_node (table r) xs"
  using closed by (auto simp: table_closed_def prefix_def)

text \<open>
  A request whose segments continue a registered path with a segment that starts no
  longer route is served by that path's handler.
\<close>

lemma lookup_registered:
  assumes "ok r" and reg: "register segments d r = Some r'"
    and ks: "key_prefix segments = ks" "ks \<noteq> []"
    and req: "key_prefix request = ks @ rest"
    and leaf: "rest \<noteq> [] \<Longrightarrow> \<not> rt_node (table r) (ks @ [hd rest])"
  shows "lookup request r' = Some (Some d)"
proof -
  note r' = registerD [OF assms(1) reg]
  have "longest_node (rt_node (table r')) (key_prefix request) = ks"
  proof (rule longest_node_eq)
    show "rt_node (table r') ks" by (simp add: r'(2) route_insert_def ks)
    show "prefix ks (key_prefix request)" by (simp add: req)
    fix m' assume m': "prefix m' (key_prefix request)" "rt_node (table r') m'"
    show "length m' \<le> length ks"
    proof (rule ccontr)
      assume "\<not> length m' \<le> length ks"
      then have long: "\<not> prefix m' ks" by (auto dest: prefix_length_le)
      with m'(1) obtain us where us: "m' = ks @ us" "prefix us rest"
        by (auto simp: req prefix_append)
      with long have "us \<noteq> []" by auto
      with us obtain x xs where x: "m' = ks @ x # xs" "rest \<noteq> []" "hd rest = x"
        by (cases us) (auto simp: prefix_Cons prefix_def)
      with m'(2) have "rt_node (table r) m'" by (auto simp: r'(2) route_insert_def ks)
      with x node_prefix [OF assms(1), of m' "ks @ [x]"] leaf show False by (simp add: prefix_def)
    qed
  qed
  moreover have "request \<noteq> []" using req ks(2) by auto
  ultimately show ?thesis
    using ks by (simp add: lookup_ok [OF r'(1)] route_search_def) (simp add: r'(2) route_insert_def ks)
qed

lemma lookup_registered_root:
  assumes "ok r" and "register [] d r = Some r'"
  shows "lookup [] r' = Some (Some d)"
  using registerD [OF assms] by (simp add: lookup_ok route_search_def route_insert_def)

text \<open>
  Registering a path leaves a request alone when it creates no node along the request's
  path and the request was not served from that very node.
\<close>

lemma lookup_other:
  assumes "ok r" and reg: "register segments d r = Some r'"
    and nonew: "\<And>q. prefix q (key_prefix segments) \<Longrightarrow> prefix q (key_prefix request) \<Longrightarrow>
      rt_node (table r) q"
    and other: "longest_node (rt_node (table r)) (key_prefix request) \<noteq> key_prefix segments"
    and "request \<noteq> []"
  shows "lookup request r' = lookup request r"
proof -
  note r' = registerD [OF assms(1) reg]
  have "longest_node (rt_node (table r')) (key_prefix request) =
      longest_node (rt_node (table r)) (key_prefix request)"
    by (rule longest_node_cong) (auto simp: r'(2) route_insert_def intro: nonew)
  with other assms(5) show ?thesis
    by (simp add: lookup_ok r' assms(1) route_search_def Let_def)
qed

lemma register_all_ok:
  "ok r \<Longrightarrow> \<exists>r'. register_all register regs r = Some r' \<and> ok r'
     \<and> rt_data (table r') = rt_data (table r) ++ map_of (rev (map (\<lambda>(s, d). (key_prefix s, d)) regs))
     \<and> rt_node (table r') = (\<lambda>xs. rt_node (table r) xs \<or> (\<exists>(s, d) \<in> set regs. prefix xs (key_prefix s)))"
proof (induction regs arbitrary: r)
  case Nil
  then show ?case by simp
next
  case (Cons sd regs)
  obtain s d where sd: "sd = (s, d)" by (cases sd)
  from register_ok [OF Cons.prems, of s d] obtain r1 where
    r1: "register s d r = Some r1" "ok r1" "table r1 = route_insert (key_prefix s) d (table r)"
    by blast
  from Cons.IH [OF r1(2)] obtain r' where
    r': "register_all register regs r1 = Some r'" "ok r'"
      "rt_data (table r') = rt_data (table r1) ++ map_of (rev (map (\<lambda>(s, d). (key_prefix s, d)) regs))"
      "rt_node (table r') =
         (\<lambda>xs. rt_node (table r1) xs \<or> (\<exists>(s, d) \<in> set regs. prefix xs (key_prefix s)))"
    by blast
  have "rt_data (table r1) ++ m = rt_data (table r) ++ ([key_prefix s \<mapsto> d] ++ m)" for m
    by (simp only: r1(3) route_insert_sels map_add_assoc map_add_upd map_add_empty)
  with r' show ?case by (auto simp: sd r1)
qed

end

end
