(* ===== verification/Http_Router_Refine.thy ===== *)
theory Http_Router_Refine
  imports Http_Router
begin

section \<open>The path tree implements a routing table\<close>

text \<open>
  The pointer structure of \<open>Http_Router\<close> is a tree: \<open>router_wf\<close> says that every pointer
  leads to a node, that no node is a child of two parents and that every allocated node
  hangs below the root. On such a tree a node is determined by the segments that lead to
  it, which gives the abstraction to a \<open>route_table\<close>. The lemmas show that the loops of
  \<open>insert\<close> and \<open>search\<close> keep the tree well-formed, never follow a bad pointer and refine
  \<open>route_insert\<close> and \<open>route_search\<close>.
\<close>

subsection \<open>Walking the tree\<close>

definition child :: "'d http_router \<Rightarrow> addr \<Rightarrow> string \<Rightarrow> addr option" where
  "child r a k = Option.bind (heap r a) (\<lambda>nd. unordered_find (node_children nd) k)"

fun walk :: "'d http_router \<Rightarrow> addr \<Rightarrow> string list \<Rightarrow> addr option" where
  "walk r a [] = Some a"
| "walk r a (k # ks) = Option.bind (child r a k) (\<lambda>c. walk r c ks)"

abbreviation node_at :: "'d http_router \<Rightarrow> string list \<Rightarrow> addr option" where
  "node_at r ks \<equiv> walk r (root r) ks"

definition table_of :: "'d http_router \<Rightarrow> 'd route_table" where
  "table_of r =
     \<lparr>rt_node = (\<lambda>ks. node_at r ks \<noteq> None),
      rt_data = (\<lambda>ks. Option.bind (node_at r ks) (\<lambda>a. Option.bind (heap r a) node_data))\<rparr>"

definition router_wf :: "'d http_router \<Rightarrow> bool" where
  "router_wf r \<longleftrightarrow>
     root r \<in> dom (heap r)
     \<and> (\<forall>a \<in> dom (heap r). a < next_addr r)
     \<and> (\<forall>nd \<in> ran (heap r). unordered_invar (node_children nd))
     \<and> (\<forall>a k c. child r a k = Some c \<longrightarrow> k \<noteq> [] \<and> c \<noteq> root r
          \<and> (\<exists>nd. heap r c = Some nd \<and> node_path nd = k))
     \<and> (\<forall>a b k k' c. child r a k = Some c \<longrightarrow> child r b k' = Some c \<longrightarrow> a = b \<and> k = k')
     \<and> (\<forall>a \<in> dom (heap r). \<exists>ks. node_at r ks = Some a)"

lemma walk_append:
  "walk r a (xs @ ys) = Option.bind (walk r a xs) (\<lambda>b. walk r b ys)"
proof (induction xs arbitrary: a)
  case (Cons x xs)
  then show ?case by (cases "child r a x") auto
qed simp

lemma walk_snoc:
  "walk r a (xs @ [k]) = Option.bind (walk r a xs) (\<lambda>b. child r b k)"
  by (cases "walk r a xs") (auto simp: walk_append)

lemma child_Some_heap: "child r a k = Some c \<Longrightarrow> \<exists>nd. heap r a = Some nd"
  by (auto simp: child_def split: Option.bind_splits)

lemma wf_child:
  assumes "router_wf r" and "child r a k = Some c"
  shows "k \<noteq> []" and "c \<noteq> root r" and "c \<in> dom (heap r)"
  using assms unfolding router_wf_def by (blast, blast, blast)

lemma wf_unique_parent:
  "router_wf r \<Longrightarrow> child r a k = Some c \<Longrightarrow> child r b k' = Some c \<Longrightarrow> a = b \<and> k = k'"
  unfolding router_wf_def by blast

lemma wf_root: "router_wf r \<Longrightarrow> root r \<in> dom (heap r)"
  unfolding router_wf_def by blast

lemma wf_bound: "router_wf r \<Longrightarrow> a \<in> dom (heap r) \<Longrightarrow> a < next_addr r"
  unfolding router_wf_def by blast

lemma wf_fresh: "router_wf r \<Longrightarrow> heap r (next_addr r) = None"
  using wf_bound [of r "next_addr r"] by (cases "heap r (next_addr r)") auto

lemma wf_children: "router_wf r \<Longrightarrow> heap r a = Some nd \<Longrightarrow> unordered_invar (node_children nd)"
  unfolding router_wf_def by (blast intro: ranI)

lemma wf_walk_dom: "router_wf r \<Longrightarrow> a \<in> dom (heap r) \<Longrightarrow> walk r a ks = Some b \<Longrightarrow> b \<in> dom (heap r)"
proof (induction ks arbitrary: a)
  case (Cons k ks)
  then obtain c where "child r a k = Some c" "walk r c ks = Some b"
    by (auto split: Option.bind_splits)
  with Cons show ?case using wf_child(3) by blast
qed simp

lemma wf_node_at_dom: "router_wf r \<Longrightarrow> node_at r ks = Some b \<Longrightarrow> b \<in> dom (heap r)"
  using wf_walk_dom wf_root by blast

text \<open>A node is reached by one segment list only.\<close>

lemma wf_node_at_inj:
  "router_wf r \<Longrightarrow> node_at r xs = Some a \<Longrightarrow> node_at r ys = Some a \<Longrightarrow> xs = ys"
proof (induction xs arbitrary: a ys rule: rev_induct)
  case Nil
  then show ?case
    by (cases ys rule: rev_cases) (auto simp: walk_snoc dest: wf_child split: Option.bind_splits)
next
  case (snoc x xs)
  from snoc.prems obtain b where b: "node_at r xs = Some b" "child r b x = Some a"
    by (auto simp: walk_snoc split: Option.bind_splits)
  from b snoc.prems obtain zs z c where ys: "ys = zs @ [z]" "node_at r zs = Some c"
      "child r c z = Some a"
    by (cases ys rule: rev_cases) (auto simp: walk_snoc dest: wf_child split: Option.bind_splits)
  with b snoc.prems(1) have "b = c" "x = z" using wf_unique_parent by blast+
  with ys snoc.IH [OF snoc.prems(1) b(1), of zs] show ?case by simp
qed

lemma node_at_root_iff: "router_wf r \<Longrightarrow> node_at r ks = Some (root r) \<longleftrightarrow> ks = []"
  using wf_node_at_inj [of r ks "root r" "[]"] by auto

subsection \<open>The empty tree\<close>

lemma child_new: "child new_HttpRouter a k = None"
  by (simp add: child_def new_HttpRouter_def new_HttpPathNode_def unordered_find_def)

lemma walk_new: "walk new_HttpRouter a ks = (if ks = [] then Some a else None)"
  by (cases ks) (simp_all add: child_new)

lemma router_wf_new: "router_wf new_HttpRouter"
proof -
  have "\<exists>ks. walk (new_HttpRouter :: 'a http_router) 1 ks = Some 1"
    by (rule exI [of _ "[]"]) simp
  then show ?thesis
    by (auto simp: router_wf_def child_new)
      (auto simp: new_HttpRouter_def new_HttpPathNode_def unordered_invar_def ran_def
        split: if_splits)
qed

lemma table_of_new: "table_of new_HttpRouter = route_empty"
  by (auto simp: table_of_def route_empty_def walk_new fun_eq_iff)
    (auto simp: new_HttpRouter_def new_HttpPathNode_def)

subsection \<open>Adding a child node\<close>

text \<open>What the allocating branch of the loop does, as one operation.\<close>

definition add_child :: "addr \<Rightarrow> 'd http_path_node \<Rightarrow> string \<Rightarrow> 'd http_router \<Rightarrow> 'd http_router" where
  "add_child a nd k r =
     (case new_HttpPathNode k None r of (n, r') \<Rightarrow>
        r'\<lparr>heap := (heap r')(a \<mapsto> nd\<lparr>node_children := unordered_put k n (node_children nd)\<rparr>)\<rparr>)"

lemma root_add_child [simp]: "root (add_child a nd k r) = root r"
  by (simp add: add_child_def new_HttpPathNode_def)

lemma heap_add_child:
  "heap (add_child a nd k r) =
     (heap r)(next_addr r \<mapsto> \<lparr>node_path = k, node_data = None, node_children = []\<rparr>,
       a \<mapsto> nd\<lparr>node_children := unordered_put k (next_addr r) (node_children nd)\<rparr>)"
  by (simp add: add_child_def new_HttpPathNode_def)

lemma child_add_child:
  assumes "router_wf r" and "heap r a = Some nd"
  shows "child (add_child a nd k r) b k' =
     (if b = a \<and> k' = k then Some (next_addr r) else child r b k')"
proof -
  from assms have fresh: "heap r (next_addr r) = None" and inv: "unordered_invar (node_children nd)"
    by (auto intro: wf_fresh wf_children)
  show ?thesis
    using assms(2) fresh
    by (auto simp: child_def heap_add_child unordered.find_put [OF inv] unordered.find_empty)
qed

lemma node_at_add_child:
  assumes wf: "router_wf r" and at: "node_at r p = Some a" and nd: "heap r a = Some nd"
    and no: "child r a k = None"
  shows "node_at (add_child a nd k r) xs = (if xs = p @ [k] then Some (next_addr r) else node_at r xs)"
proof (induction xs rule: rev_induct)
  case Nil
  then show ?case by simp
next
  case (snoc x xs)
  have fresh: "child r (next_addr r) x = None"
    by (simp add: child_def wf_fresh [OF wf])
  have new: "a \<noteq> next_addr r"
    using wf_fresh [OF wf] nd by auto
  have gone: "node_at r (p @ [k]) = None"
    using at no by (simp add: walk_snoc)
  have same: "node_at r xs = Some a \<longleftrightarrow> xs = p"
    using wf_node_at_inj [OF wf _ at] at by blast
  show ?case
  proof (cases "xs = p @ [k]")
    case True
    have "node_at r (xs @ [x]) = None"
      unfolding True walk_snoc [of _ _ "p @ [k]"] gone by simp
    then show ?thesis
      using snoc.IH new fresh unfolding walk_snoc [of _ _ xs]
      by (simp add: True child_add_child [OF wf nd])
  next
    case False
    then show ?thesis
      using snoc.IH same at
      by (cases "node_at r xs") (auto simp: walk_snoc child_add_child [OF wf nd])
  qed
qed

lemma router_wf_add_child:
  assumes wf: "router_wf r" and at: "node_at r p = Some a" and nd: "heap r a = Some nd"
    and no: "child r a k = None" and ne: "k \<noteq> []"
  shows "router_wf (add_child a nd k r)"
  unfolding router_wf_def
proof (intro conjI ballI allI impI)
  let ?r = "add_child a nd k r" and ?n = "next_addr r"
  note bound = wf_bound [OF wf] and root = wf_root [OF wf]
  note new = child_add_child [OF wf nd] and path = node_at_add_child [OF wf at nd no]
  show "root ?r \<in> dom (heap ?r)" using root by (simp add: heap_add_child)
  fix b
  show "b < next_addr ?r" if "b \<in> dom (heap ?r)"
    using that bound nd by (fastforce simp: heap_add_child add_child_def new_HttpPathNode_def
        split: if_splits)
  show "\<exists>ks. node_at ?r ks = Some b" if "b \<in> dom (heap ?r)"
  proof (cases "b = ?n")
    case True
    then show ?thesis using path [of "p @ [k]"] by auto
  next
    case False
    with that nd have "b \<in> dom (heap r)" by (auto simp: heap_add_child split: if_splits)
    with wf obtain ks where "node_at r ks = Some b" unfolding router_wf_def by blast
    moreover from this have "ks \<noteq> p @ [k]" using at no by (auto simp: walk_snoc)
    ultimately show ?thesis using path [of ks] by auto
  qed
  show "unordered_invar (node_children m)" if "m \<in> ran (heap ?r)" for m
    using that wf_children [OF wf] unordered.invar_put [OF wf_children [OF wf nd]]
      unordered.invar_empty
    by (auto simp: heap_add_child ran_def split: if_splits)
  fix k' c assume c: "child ?r b k' = Some c"
  show "k' \<noteq> []" using c wf_child(1) [OF wf] ne by (auto simp: new split: if_splits)
  show "c \<noteq> root ?r"
    using c wf_child(2) [OF wf] bound [OF root] by (auto simp: new split: if_splits)
  show "\<exists>m. heap ?r c = Some m \<and> node_path m = k'"
  proof (cases "b = a \<and> k' = k")
    case True
    then have "c = ?n" using c by (simp add: new)
    then show ?thesis using True bound nd by (auto simp: heap_add_child)
  next
    case False
    then have "child r b k' = Some c" using c by (auto simp: new split: if_splits)
    then obtain m where "heap r c = Some m" "node_path m = k'"
      using wf unfolding router_wf_def by blast
    then show ?thesis using nd bound by (fastforce simp: heap_add_child)
  qed
  fix b' k'' assume c': "child ?r b' k'' = Some c"
  have old: "c < ?n" if "child r e l = Some c" for e l
    using wf_child(3) [OF wf that] bound by blast
  have "b = b' \<and> k' = k''"
    using c c' old wf_unique_parent [OF wf] by (auto simp: new split: if_splits)
  then show "b = b'" and "k' = k''" by simp_all
qed

lemma table_of_add_child:
  assumes wf: "router_wf r" and at: "node_at r p = Some a" and nd: "heap r a = Some nd"
    and no: "child r a k = None"
  shows "table_of (add_child a nd k r) =
     (table_of r)\<lparr>rt_node := (\<lambda>xs. rt_node (table_of r) xs \<or> xs = p @ [k])\<rparr>"
proof -
  note path = node_at_add_child [OF wf at nd no]
  have gone: "node_at r (p @ [k]) = None" using at no by (simp add: walk_snoc)
  have "Option.bind (node_at (add_child a nd k r) xs)
      (\<lambda>b. Option.bind (heap (add_child a nd k r) b) node_data) =
    Option.bind (node_at r xs) (\<lambda>b. Option.bind (heap r b) node_data)" for xs
  proof (cases "xs = p @ [k]")
    case True
    then show ?thesis using path [of xs] gone wf_fresh [OF wf] nd by (auto simp: heap_add_child)
  next
    case False
    then show ?thesis
      using path [of xs] wf_fresh [OF wf] nd wf_node_at_dom [OF wf, of xs]
      by (cases "node_at r xs") (auto simp: heap_add_child)
  qed
  then show ?thesis
    using path by (auto simp: table_of_def fun_eq_iff)
qed

subsection \<open>The loop of insert\<close>

lemma node_at_prefix:
  assumes "node_at r ks = Some a" and "prefix xs ks"
  shows "node_at r xs \<noteq> None"
  using assms by (auto simp: prefix_def walk_append split: Option.bind_splits)

lemma insert_loop_old:
  "k \<noteq> [] \<Longrightarrow> child r a k = Some c \<Longrightarrow> insert_loop (k # ks) a r = insert_loop ks c r"
  by (auto simp: child_def split: Option.bind_splits)

lemma insert_loop_new:
  "k \<noteq> [] \<Longrightarrow> heap r a = Some nd \<Longrightarrow> child r a k = None \<Longrightarrow>
    insert_loop (k # ks) a r = insert_loop ks (next_addr r) (add_child a nd k r)"
  by (simp add: child_def add_child_def new_HttpPathNode_def)

lemma insert_loop_refines:
  assumes "router_wf r" and "node_at r p = Some a"
  shows "\<exists>a' r'. insert_loop ks a r = Some (a', r') \<and> router_wf r'
    \<and> node_at r' (p @ key_prefix ks) = Some a'
    \<and> table_of r' = (table_of r)\<lparr>rt_node :=
          (\<lambda>xs. rt_node (table_of r) xs \<or> prefix xs (p @ key_prefix ks))\<rparr>"
  using assms
proof (induction ks arbitrary: p a r)
  case Nil
  then show ?case using node_at_prefix [OF Nil.prems(2)] by (auto simp: table_of_def fun_eq_iff)
next
  case (Cons k ks)
  note wf = Cons.prems(1) and at = Cons.prems(2)
  from wf_node_at_dom [OF wf at] obtain nd where nd: "heap r a = Some nd" by auto
  consider (stop) "k = []" | (old) c where "k \<noteq> []" "child r a k = Some c"
    | (new) "k \<noteq> []" "child r a k = None"
    by (cases "child r a k") auto
  then show ?case
  proof cases
    case stop
    then show ?thesis
      using wf at node_at_prefix [OF at] by (auto simp: table_of_def fun_eq_iff)
  next
    case old
    then have "node_at r (p @ [k]) = Some c" using at by (simp add: walk_snoc)
    from Cons.IH [OF wf this] old show ?thesis
      by (simp add: insert_loop_old del: insert_loop.simps(2))
  next
    case new
    let ?r = "add_child a nd k r"
    note wf' = router_wf_add_child [OF wf at nd new(2,1)]
    have "node_at ?r (p @ [k]) = Some (next_addr r)"
      by (simp only: node_at_add_child [OF wf at nd new(2)]) simp
    from Cons.IH [OF wf' this] obtain a' r' where
      r': "insert_loop ks (next_addr r) ?r = Some (a', r')" "router_wf r'"
        "node_at r' ((p @ [k]) @ key_prefix ks) = Some a'"
        "table_of r' = (table_of ?r)\<lparr>rt_node :=
           (\<lambda>xs. rt_node (table_of ?r) xs \<or> prefix xs ((p @ [k]) @ key_prefix ks))\<rparr>"
      by blast
    moreover have "(xs = p @ [k] \<or> prefix xs (p @ k # key_prefix ks)) =
        prefix xs (p @ k # key_prefix ks)" for xs
      by (auto simp: prefix_def)
    ultimately show ?thesis
      using new by (auto simp: insert_loop_new [OF new(1) nd new(2)]
          table_of_add_child [OF wf at nd new(2)] fun_eq_iff
          simp del: insert_loop.simps(2))
  qed
qed

subsection \<open>Storing the handler\<close>

lemma set_data_refines:
  assumes wf: "router_wf r" and at: "node_at r ks = Some a"
  shows "\<exists>r'. set_data a d r = Some r' \<and> router_wf r'
    \<and> table_of r' = (table_of r)\<lparr>rt_data := (rt_data (table_of r))(ks \<mapsto> d)\<rparr>"
proof -
  from wf_node_at_dom [OF wf at] obtain nd where nd: "heap r a = Some nd" by auto
  define r' where "r' = r\<lparr>heap := (heap r)(a \<mapsto> nd\<lparr>node_data := Some d\<rparr>)\<rparr>"
  have child: "child r' b k = child r b k" for b k using nd by (simp add: r'_def child_def)
  have walk: "walk r' b xs = walk r b xs" for b xs
    by (induction xs arbitrary: b) (simp_all add: child)
  have path: "node_at r' xs = node_at r xs" for xs
    unfolding walk by (simp add: r'_def)
  have dom: "dom (heap r') = dom (heap r)" "root r' = root r" "next_addr r' = next_addr r"
    using nd by (auto simp: r'_def)
  have kids: "unordered_invar (node_children m)" if "m \<in> ran (heap r')" for m
    using that wf_children [OF wf] wf_children [OF wf nd]
    by (auto simp: r'_def ran_def split: if_splits)
  have names: "\<exists>m. heap r' c = Some m \<and> node_path m = k" if "child r b k = Some c" for b k c
  proof -
    from wf that obtain m where "heap r c = Some m" "node_path m = k"
      unfolding router_wf_def by blast
    then show ?thesis using nd by (auto simp: r'_def)
  qed
  have "router_wf r'"
    unfolding router_wf_def child path dom(1,3)
    using wf_root [OF wf] wf_bound [OF wf] kids wf_child [OF wf] names wf_unique_parent [OF wf]
      wf [unfolded router_wf_def]
    by (auto simp: dom(2))
  moreover have "table_of r' = (table_of r)\<lparr>rt_data := (rt_data (table_of r))(ks \<mapsto> d)\<rparr>"
  proof -
    have "Option.bind (node_at r xs) (\<lambda>b. Option.bind (heap r' b) node_data) =
        (if xs = ks then Some d
         else Option.bind (node_at r xs) (\<lambda>b. Option.bind (heap r b) node_data))" for xs
      using wf_node_at_inj [OF wf _ at, of xs] at
      by (cases "node_at r xs") (auto simp: r'_def)
    then show ?thesis by (auto simp: table_of_def path fun_eq_iff)
  qed
  ultimately show ?thesis using nd by (auto simp: set_data_def r'_def)
qed

lemma insert_segments_refines:
  assumes wf: "router_wf r"
  shows "\<exists>r'. insert_segments segments d r = Some r' \<and> router_wf r'
    \<and> table_of r' = route_insert (key_prefix segments) d (table_of r)"
proof -
  from insert_loop_refines [OF wf, of "[]" "root r" segments] obtain a r1 where
    loop: "insert_loop segments (root r) r = Some (a, r1)" "router_wf r1"
      "node_at r1 (key_prefix segments) = Some a"
      "table_of r1 = (table_of r)\<lparr>rt_node :=
         (\<lambda>xs. rt_node (table_of r) xs \<or> prefix xs (key_prefix segments))\<rparr>"
    by auto
  from set_data_refines [OF loop(2,3), of d] loop show ?thesis
    by (cases segments) (auto simp: insert_segments_def route_insert_def table_of_def)
qed

subsection \<open>The loop of search\<close>

lemma search_loop_refines:
  assumes wf: "router_wf r" and "node_at r p = Some a"
  shows "\<exists>m b. search_loop ks a r = Some b \<and> node_at r (p @ m) = Some b
    \<and> prefix m (key_prefix ks)
    \<and> (\<forall>m'. prefix m' (key_prefix ks) \<longrightarrow> node_at r (p @ m') \<noteq> None \<longrightarrow> length m' \<le> length m)"
  using assms(2)
proof (induction ks arbitrary: p a)
  case Nil
  then show ?case by (intro exI [of _ "[]"]) auto
next
  case (Cons k ks)
  note at = Cons.prems
  from wf_node_at_dom [OF wf at] obtain nd where nd: "heap r a = Some nd" by auto
  show ?case
  proof (cases "k = [] \<or> child r a k = None")
    case True
    have "length m' = 0" if "prefix m' (key_prefix (k # ks))" "node_at r (p @ m') \<noteq> None" for m'
      using True that at by (cases m') (auto simp: walk_append key_prefix_def split: if_splits)
    then show ?thesis
      using True nd at by (intro exI [of _ "[]"]) (auto simp: child_def)
  next
    case False
    then obtain c where c: "k \<noteq> []" "child r a k = Some c" by auto
    then have "node_at r (p @ [k]) = Some c" using at by (simp add: walk_snoc)
    from Cons.IH [OF this] obtain m b where
      IH: "search_loop ks c r = Some b" "node_at r (p @ k # m) = Some b" "prefix m (key_prefix ks)"
        "\<And>m'. prefix m' (key_prefix ks) \<Longrightarrow> node_at r (p @ k # m') \<noteq> None \<Longrightarrow> length m' \<le> length m"
      by auto
    have "length m' \<le> length (k # m)"
      if "prefix m' (key_prefix (k # ks))" "node_at r (p @ m') \<noteq> None" for m'
      using that c IH(4) by (cases m') auto
    with IH c nd show ?thesis
      by (intro exI [of _ "k # m"]) (auto simp: child_def)
  qed
qed

lemma search_segments_refines:
  assumes wf: "router_wf r"
  shows "search_segments segments r = Some (route_search segments (table_of r))"
proof -
  from search_loop_refines [OF wf, of "[]" "root r" segments] obtain m b where
    m: "search_loop segments (root r) r = Some b" "node_at r m = Some b"
      "prefix m (key_prefix segments)"
      "\<And>m'. prefix m' (key_prefix segments) \<Longrightarrow> node_at r m' \<noteq> None \<Longrightarrow> length m' \<le> length m"
    by auto
  then have longest: "longest_node (rt_node (table_of r)) (key_prefix segments) = m"
    by (intro longest_node_eq) (auto simp: table_of_def)
  have "b = root r \<longleftrightarrow> m = []" using m(2) node_at_root_iff [OF wf, of m] by auto
  with m longest wf_node_at_dom [OF wf m(2)] wf_root [OF wf] show ?thesis
    by (auto simp: search_segments_def route_search_def read_data_def table_of_def Let_def)
qed

subsection \<open>The path tree as a routing table\<close>

lemma table_closed_table_of:
  assumes "router_wf r"
  shows "table_closed (table_of r)"
  by (auto simp: table_closed_def table_of_def walk_append split: Option.bind_splits)

interpretation tree: routing new_HttpRouter insert_segments search_segments table_of router_wf
  by unfold_locales
    (use router_wf_new table_of_new table_closed_table_of insert_segments_refines
      search_segments_refines in auto)

subsection \<open>Deleting the tree\<close>

definition subtree :: "'d http_router \<Rightarrow> addr \<Rightarrow> addr set" where
  "subtree r a = {b. \<exists>xs. walk r a xs = Some b}"

lemma child_iff_mem:
  assumes "router_wf r" and "heap r a = Some nd"
  shows "child r a k = Some c \<longleftrightarrow> (k, c) \<in> set (node_children nd)"
  using unordered_find_mem [OF wf_children [OF assms]] assms(2) by (simp add: child_def)

lemma subtree_node:
  assumes wf: "router_wf r" and nd: "heap r a = Some nd"
  shows "subtree r a = Set.insert a (\<Union>c \<in> set (map snd (node_children nd)). subtree r c)"
proof (intro set_eqI iffI)
  fix b assume "b \<in> subtree r a"
  then obtain xs where xs: "walk r a xs = Some b" by (auto simp: subtree_def)
  show "b \<in> Set.insert a (\<Union>c \<in> set (map snd (node_children nd)). subtree r c)"
  proof (cases xs)
    case (Cons k ks)
    with xs obtain c where c: "child r a k = Some c" "walk r c ks = Some b"
      by (auto split: Option.bind_splits)
    then have "(k, c) \<in> set (node_children nd)" "b \<in> subtree r c"
      using child_iff_mem [OF assms] by (auto simp: subtree_def)
    then show ?thesis by force
  qed (use xs in simp)
next
  fix b assume "b \<in> Set.insert a (\<Union>c \<in> set (map snd (node_children nd)). subtree r c)"
  then consider "b = a" | k c where "(k, c) \<in> set (node_children nd)" "b \<in> subtree r c" by auto
  then show "b \<in> subtree r a"
  proof cases
    case 1
    then have "walk r a [] = Some b" by simp
    then show ?thesis unfolding subtree_def by blast
  next
    case 2
    then obtain xs where "walk r c xs = Some b" by (auto simp: subtree_def)
    moreover have "child r a k = Some c" using 2 child_iff_mem [OF assms] by blast
    ultimately have "walk r a (k # xs) = Some b" by simp
    then show ?thesis unfolding subtree_def by blast
  qed
qed

lemma distinct_child_addrs:
  assumes wf: "router_wf r" and nd: "heap r a = Some nd"
  shows "distinct (map snd (node_children nd))"
proof -
  have "inj_on snd (set (node_children nd))"
    using wf_unique_parent [OF wf] by (auto simp: inj_on_def child_iff_mem [OF wf nd, symmetric])
  moreover have "distinct (node_children nd)"
    using wf_children [OF wf nd] unfolding unordered_invar_def
    by (simp add: distinct_map)
  ultimately show ?thesis by (simp add: distinct_map)
qed

lemma subtree_disjoint:
  assumes wf: "router_wf r" and at: "node_at r p = Some a"
    and c: "child r a k = Some c" and c': "child r a k' = Some c'" and "c \<noteq> c'"
  shows "subtree r c \<inter> subtree r c' = {}"
proof (rule ccontr)
  assume "subtree r c \<inter> subtree r c' \<noteq> {}"
  then obtain b xs ys where "walk r c xs = Some b" "walk r c' ys = Some b"
    by (auto simp: subtree_def)
  with at c c' have "node_at r (p @ k # xs) = Some b" "node_at r (p @ k' # ys) = Some b"
    by (simp_all add: walk_append)
  from wf_node_at_inj [OF wf this] have "k = k'" by simp
  with c c' \<open>c \<noteq> c'\<close> show False by simp
qed

lemma delete_children_ok:
  assumes node: "\<And>c h. c \<in> set cs \<Longrightarrow> (\<And>b. b \<in> S c \<Longrightarrow> h b = g b) \<Longrightarrow>
      delete_node n c h = Some (h |` (- S c))"
    and disj: "\<And>c c'. c \<in> set cs \<Longrightarrow> c' \<in> set cs \<Longrightarrow> c \<noteq> c' \<Longrightarrow> S c \<inter> S c' = {}"
    and "distinct cs" and "\<And>c b. c \<in> set cs \<Longrightarrow> b \<in> S c \<Longrightarrow> h b = g b"
  shows "delete_children n cs h = Some (h |` (- (\<Union>c \<in> set cs. S c)))"
  using assms
proof (induction cs arbitrary: h)
  case Nil
  then show ?case by simp
next
  case (Cons c cs)
  have "delete_node n c h = Some (h |` (- S c))"
    by (rule Cons.prems(1)) (use Cons.prems(4) in auto)
  moreover have "delete_children n cs (h |` (- S c)) = Some ((h |` (- S c)) |` (- (\<Union>c \<in> set cs. S c)))"
  proof (rule Cons.IH)
    fix c' b assume c': "c' \<in> set cs" and "b \<in> S c'"
    with Cons.prems have "b \<notin> S c" "h b = g b" by (metis disjoint_iff distinct.simps(2) list.set_intros)+
    then show "(h |` (- S c)) b = g b" by simp
  qed (use Cons.prems in auto)
  ultimately show ?case by (simp add: Int_commute)
qed

lemma delete_node_ok:
  assumes wf: "router_wf r" and "node_at r p = Some a"
    and "\<And>xs. walk r a xs \<noteq> None \<Longrightarrow> length xs < n"
    and "\<And>b. b \<in> subtree r a \<Longrightarrow> h b = heap r b"
  shows "delete_node n a h = Some (h |` (- subtree r a))"
  using assms(2-4)
proof (induction n arbitrary: p a h)
  case 0
  from "0.prems"(2) [of "[]"] show ?case by simp
next
  case (Suc n)
  note at = Suc.prems(1)
  from wf_node_at_dom [OF wf at] obtain nd where nd: "heap r a = Some nd" by auto
  let ?cs = "map snd (node_children nd)"
  note sub = subtree_node [OF wf nd]
  have kid: "\<exists>k. child r a k = Some c" if "c \<in> set ?cs" for c
    using that child_iff_mem [OF wf nd] by auto
  have "delete_children n ?cs h = Some (h |` (- (\<Union>c \<in> set ?cs. subtree r c)))"
  proof (rule delete_children_ok [where g = "heap r"])
    fix c h' assume "c \<in> set ?cs" and h': "\<And>b. b \<in> subtree r c \<Longrightarrow> h' b = heap r b"
    then obtain k where k: "child r a k = Some c" using kid by blast
    show "delete_node n c h' = Some (h' |` (- subtree r c))"
    proof (rule Suc.IH [OF _ _ h'])
      show "node_at r (p @ [k]) = Some c" using at k by (simp add: walk_snoc)
      show "length xs < n" if "walk r c xs \<noteq> None" for xs
        using Suc.prems(2) [of "k # xs"] k that by simp
    qed
  next
    fix c c' assume "c \<in> set ?cs" "c' \<in> set ?cs" "c \<noteq> c'"
    then show "subtree r c \<inter> subtree r c' = {}"
      using kid subtree_disjoint [OF wf at] by metis
  next
    show "distinct ?cs" by (rule distinct_child_addrs [OF wf nd])
    fix c b assume "c \<in> set ?cs" "b \<in> subtree r c"
    then show "h b = heap r b" using Suc.prems(3) sub by blast
  qed
  moreover have "h a = Some nd" using Suc.prems(3) [of a] sub nd by simp
  ultimately show ?case
    by (auto simp: sub restrict_map_def fun_eq_iff)
qed

lemma node_at_length:
  assumes wf: "router_wf r" and at: "node_at r ks = Some a"
  shows "length ks < next_addr r"
proof -
  let ?f = "\<lambda>i. the (node_at r (take i ks))"
  have pre: "node_at r (take i ks) = Some (?f i)" for i
    using node_at_prefix [OF at take_is_prefix] by auto
  have "inj_on ?f {..length ks}"
  proof (rule inj_onI)
    fix i j assume "i \<in> {..length ks}" "j \<in> {..length ks}" "?f i = ?f j"
    then have "take i ks = take j ks" using pre wf_node_at_inj [OF wf] by metis
    then have "length (take i ks) = length (take j ks)" by simp
    then show "i = j" using \<open>i \<in> _\<close> \<open>j \<in> _\<close> by simp
  qed
  moreover have "?f ` {..length ks} \<subseteq> {..<next_addr r}"
    using wf_bound [OF wf wf_node_at_dom [OF wf pre]] by auto
  ultimately have "card {..length ks} \<le> card {..<next_addr r}"
    by (meson card_inj_on_le finite_lessThan)
  then show ?thesis by simp
qed

lemma subtree_root:
  assumes wf: "router_wf r"
  shows "subtree r (root r) = dom (heap r)"
proof
  show "subtree r (root r) \<subseteq> dom (heap r)"
    using wf_node_at_dom [OF wf] by (auto simp: subtree_def)
  show "dom (heap r) \<subseteq> subtree r (root r)"
    using wf by (auto simp: subtree_def router_wf_def)
qed

lemma delete_HttpRouter_ok:
  assumes wf: "router_wf r" and "root r \<noteq> 0"
  shows "delete_HttpRouter r = Some (r\<lparr>heap := Map.empty, root := 0\<rparr>)"
proof -
  have "delete_node (next_addr r) (root r) (heap r) = Some (heap r |` (- subtree r (root r)))"
    using node_at_length [OF wf] by (intro delete_node_ok [OF wf, of "[]"]) auto
  also have "heap r |` (- subtree r (root r)) = Map.empty"
    by (auto simp: subtree_root [OF wf] restrict_map_def fun_eq_iff)
  finally show ?thesis using assms(2) by (simp add: delete_HttpRouter_def)
qed

text \<open>Insertion keeps the root.\<close>

lemma insert_loop_root: "insert_loop iter a r = Some (b, r') \<Longrightarrow> root r' = root r"
  by (induction iter a r rule: insert_loop.induct)
    (auto simp: new_HttpPathNode_def split: if_splits option.splits prod.splits)

lemma insert_segments_root: "insert_segments segments d r = Some r' \<Longrightarrow> root r' = root r"
  by (auto simp: insert_segments_def set_data_def dest!: insert_loop_root split: if_splits option.splits)

text \<open>A path that has data of its own.\<close>

lemma exact_route:
  assumes "router_wf r" and "rt_data (table_of r) (key_prefix ss) = Some h" and "key_prefix ss \<noteq> []"
  shows "search_segments ss r = Some (Some h)"
proof -
  have "rt_node (table_of r) (key_prefix ss)"
    using tree.closed [OF assms(1)] assms(2) by (auto simp: table_closed_def)
  then have "longest_node (rt_node (table_of r)) (key_prefix ss) = key_prefix ss"
    by (intro longest_node_eq) (auto dest: prefix_length_le)
  with assms show ?thesis by (auto simp: tree.lookup_ok route_search_def key_prefix_def)
qed

end
