(* ===== verification/Http_Router_Props.thy ===== *)
theory Http_Router_Props
  imports Http_Router_Refine
begin

section \<open>Properties of the path tree\<close>

text \<open>
  What \<open>HttpRouter\<close> promises to the server and to the session, stated on paths and
  segments as the code takes them. The proofs use the refinement of \<open>Http_Router_Refine\<close>
  and the lemmas of the locale \<open>routing\<close> through its interpretation \<open>tree\<close>.
\<close>

subsection \<open>A concrete segmentation for the witnesses\<close>

text \<open>
  The witnesses run the model with this instance of \<open>segments_view\<close>: it cuts a path at the
  slashes after the first and does no percent-decoding; the path \<open>/\<close> has no segments.
\<close>

fun split_slash :: "string \<Rightarrow> string list" where
  "split_slash [] = [[]]"
| "split_slash (c # cs) =
     (if c = CHR ''/'' then [] # split_slash cs
      else (case split_slash cs of [] \<Rightarrow> [[c]] | s # ss \<Rightarrow> (c # s) # ss))"

definition plain_segments :: "string \<Rightarrow> string + string list" where
  "plain_segments path =
     (case path of [] \<Rightarrow> Inr []
      | c # cs \<Rightarrow> if cs = [] then Inr [] else Inr (split_slash cs))"

lemmas run_router =
  router_insert_def insert_segments_def set_data_def new_HttpRouter_def new_HttpPathNode_def
  search_path_def search_segments_def read_data_def unordered_find_def unordered_put_def
  plain_segments_def

subsection \<open>insert and search refine the routing table\<close>

text \<open>
  C1. \<open>HttpRouter::insert\<close> on a well-formed tree: it either throws, exactly when the data is
  null, the path does not start with a slash, contains two dots or is rejected by
  \<open>segments_view\<close>, and never follows a bad pointer; or it yields a well-formed tree whose
  routing table is the old one with the path's non-empty leading segments bound to the data.
\<close>

theorem router_insert_refines:
  assumes "router_wf r"
  shows "case router_insert segments_view path data r of
      Inl e \<Rightarrow> e \<noteq> Bad_Pointer \<and> (data = None \<or> char_at0 path \<noteq> CHR ''/''
          \<or> sublist ''..'' path \<or> (\<exists>m. segments_view path = Inl m))
    | Inr r' \<Rightarrow> router_wf r' \<and> char_at0 path = CHR ''/'' \<and> \<not> sublist ''..'' path
        \<and> (\<exists>d segments. data = Some d \<and> segments_view path = Inr segments
            \<and> table_of r' = route_insert (key_prefix segments) d (table_of r))"
proof (cases data)
  case None
  then show ?thesis by (simp add: router_insert_def)
next
  case (Some d)
  show ?thesis
  proof (cases "segments_view path")
    case (Inl e)
    then show ?thesis using Some by (simp add: router_insert_def str_contains_iff)
  next
    case (Inr segments)
    from tree.register_ok [OF assms, of segments d] Some Inr show ?thesis
      by (auto simp: router_insert_def str_contains_iff)
  qed
qed

theorem router_insert_refines_witness:
  "case router_insert plain_segments ''/hello'' (Some (7::nat)) new_HttpRouter of
      Inl e \<Rightarrow> e \<noteq> Bad_Pointer \<and> (Some (7::nat) = None \<or> char_at0 ''/hello'' \<noteq> CHR ''/''
          \<or> sublist ''..'' ''/hello'' \<or> (\<exists>m. plain_segments ''/hello'' = Inl m))
    | Inr r' \<Rightarrow> router_wf r' \<and> char_at0 ''/hello'' = CHR ''/'' \<and> \<not> sublist ''..'' ''/hello''
        \<and> (\<exists>d segments. Some 7 = Some d \<and> plain_segments ''/hello'' = Inr segments
            \<and> table_of r' = route_insert (key_prefix segments) d (table_of new_HttpRouter))"
  using router_insert_refines [OF router_wf_new, where segments_view = plain_segments
      and path = "''/hello''" and data = "Some (7::nat)"] .

lemma search_path_refines:
  assumes "router_wf r"
  shows "search_path segments_view path r =
      (if path = [] then Inr (rt_data (table_of r) [])
       else if char_at0 path \<noteq> CHR ''/'' then Inr None
       else case segments_view path of
          Inl e \<Rightarrow> Inl (Url_Error e)
        | Inr ss \<Rightarrow> Inr (route_search ss (table_of r)))"
proof -
  note seg = tree.lookup_ok [OF assms]
  have root: "read_data (root r) r = Some (rt_data (table_of r) [])"
    using seg [of "[]"] by (simp add: search_segments_def route_search_def)
  show ?thesis
  proof (cases "segments_view path")
    case (Inl e)
    then show ?thesis by (simp add: search_path_def root)
  next
    case (Inr ss)
    then show ?thesis
      using seg [of ss]
      by (auto simp: search_path_def root search_segments_def route_search_def
          split: option.splits if_splits)
  qed
qed

text \<open>
  C2. Both overloads of \<open>HttpRouter::search\<close> on a well-formed tree follow no bad pointer and
  compute the longest match of the routing table: they descend along the segments before the
  first empty one as far as nodes exist and return that node's data; they find nothing
  when no step was possible, and the root's data when there are no segments.
\<close>

theorem router_search_refines:
  assumes "router_wf r"
  shows "search_segments segments r = Some (route_search segments (table_of r))
    \<and> search_path segments_view path r =
      (if path = [] then Inr (rt_data (table_of r) [])
       else if char_at0 path \<noteq> CHR ''/'' then Inr None
       else case segments_view path of
          Inl e \<Rightarrow> Inl (Url_Error e)
        | Inr ss \<Rightarrow> Inr (route_search ss (table_of r)))"
  using search_path_refines [OF assms] tree.lookup_ok [OF assms] by blast

theorem router_search_refines_witness:
  "search_segments [''a''] (new_HttpRouter :: nat http_router)
     = Some (route_search [''a''] (table_of new_HttpRouter))
   \<and> search_path plain_segments ''/a'' (new_HttpRouter :: nat http_router) = Inr None"
proof -
  note s = router_search_refines [OF router_wf_new, where segments_view = plain_segments
      and path = "''/a''" and segments = "[''a'']"]
  then show ?thesis
    by (auto simp: plain_segments_def table_of_new route_search_def route_empty_def
        longest_node_def key_prefix_def)
qed

subsection \<open>What a registered path serves\<close>



lemma insert_loop_trailing: "insert_loop (ks @ [[]]) a r = insert_loop ks a r"
  by (induction ks a r rule: insert_loop.induct) (auto split: option.splits prod.splits)

lemma search_loop_trailing: "search_loop (ks @ [[]]) a r = search_loop ks a r"
  by (induction ks a r rule: search_loop.induct) (auto split: option.splits)

lemma str_contains_dots_slash: "str_contains ''..'' (path @ ''/'') = str_contains ''..'' path"
proof (induction path)
  case (Cons c path)
  have "take 2 (c # path @ ''/'') = ''..'' \<longleftrightarrow> take 2 (c # path) = ''..''"
    by (cases path) auto
  with Cons show ?case by (simp add: numeral_2_eq_2)
qed simp

text \<open>
  C4. A slash at the end of a path is ignored, as http_server.h documents, for every path but \<open>/\<close>:
  where \<open>segments_view\<close> accepts the path with at least one segment, and yields one more, empty,
  segment for the slash, registering and searching the path with and without it do the same,
  with the same error where \<open>insert\<close> refuses the path or the data. The path \<open>/\<close> itself has
  no segment, and \<open>//\<close> begins with an empty one: registering them does the same as well, but
  on a well-formed tree a search for \<open>/\<close> yields the root's data and one for \<open>//\<close> nothing.
\<close>

theorem trailing_slash_ignored:
  assumes "segments_view path = Inr segments" and "segments \<noteq> []"
    and "segments_view (path @ ''/'') = Inr (segments @ [[]])" and "path \<noteq> []"
  shows "router_insert segments_view (path @ ''/'') data r = router_insert segments_view path data r
    \<and> search_path segments_view (path @ ''/'') r = search_path segments_view path r
    \<and> (segments_view ''/'' = Inr [] \<and> segments_view ''//'' = Inr ([] # rest) \<longrightarrow>
         router_insert segments_view ''//'' data r = router_insert segments_view ''/'' data r
         \<and> (router_wf r \<longrightarrow> search_path segments_view ''/'' r = Inr (rt_data (table_of r) [])
              \<and> search_path segments_view ''//'' r = Inr None))"
proof -
  have "char_at0 (path @ ''/'') = char_at0 path" using assms(4) by (cases path) auto
  with assms have "router_insert segments_view (path @ ''/'') data r = router_insert segments_view path data r
    \<and> search_path segments_view (path @ ''/'') r = search_path segments_view path r"
    by (cases data) (simp_all add: router_insert_def search_path_def insert_segments_def
        str_contains_dots_slash insert_loop_trailing search_loop_trailing)
  moreover have "router_insert segments_view ''//'' data r = router_insert segments_view ''/'' data r"
    if "segments_view ''/'' = Inr []" "segments_view ''//'' = Inr ([] # rest)"
    using that by (cases data) (simp_all add: router_insert_def insert_segments_def)
  moreover have "search_path segments_view ''/'' r = Inr (rt_data (table_of r) [])
      \<and> search_path segments_view ''//'' r = Inr None"
    if "router_wf r" "segments_view ''/'' = Inr []" "segments_view ''//'' = Inr ([] # rest)"
    using that tree.node_root [OF that(1)]
    by (simp add: search_path_refines route_search_def longest_node_def)
  ultimately show ?thesis by blast
qed

theorem trailing_slash_ignored_witness:
  "router_insert plain_segments (''/a/b'' @ ''/'') (Some (1::nat)) new_HttpRouter
     = router_insert plain_segments ''/a/b'' (Some 1) new_HttpRouter
   \<and> search_path plain_segments (''/a/b'' @ ''/'') (new_HttpRouter :: nat http_router)
     = search_path plain_segments ''/a/b'' new_HttpRouter
   \<and> search_path plain_segments ''//'' (new_HttpRouter :: nat http_router) = Inr None"
proof -
  have "plain_segments ''/'' = Inr []" "plain_segments ''//'' = Inr ([] # [[]])"
    by (simp_all add: plain_segments_def)
  moreover have "router_wf (new_HttpRouter :: nat http_router)" by (rule router_wf_new)
  ultimately show ?thesis
    using trailing_slash_ignored [where segments = "[''a'', ''b'']" and segments_view = plain_segments
      and path = "''/a/b''" and data = "Some (1::nat)" and r = new_HttpRouter and rest = "[[]]"]
    by (simp add: plain_segments_def)
qed

text \<open>
  C5. After a sequence of registrations on a new router, the tree is well-formed and every
  path carries exactly the handler registered last for its leading segments: registering a
  path again overwrites, and no registration disturbs another path's handler.
\<close>

theorem registrations_last_wins:
  "\<exists>r. register_all insert_segments regs new_HttpRouter = Some r \<and> router_wf r
     \<and> rt_data (table_of r) = map_of (rev (map (\<lambda>(segments, d). (key_prefix segments, d)) regs))"
  using tree.register_all_ok [OF router_wf_new, of regs] by (auto simp: table_of_new route_empty_def)

text \<open>
  C6. The match is the longest chain of existing nodes, not the longest registered path: with
  handlers at \<open>/a\<close> and \<open>/a/b/c\<close> only, a request for \<open>/a/b\<close> or for \<open>/a/b/x\<close> finds no handler,
  although \<open>/a\<close> is registered and is a prefix of both.
\<close>

theorem inner_node_shadows_prefix:
  assumes "a \<noteq> []" "b \<noteq> []" "c \<noteq> []" "x \<noteq> c"
  shows "\<exists>r. register_all insert_segments [([a], d1), ([a, b, c], d2)] new_HttpRouter = Some r
     \<and> search_segments [a] r = Some (Some d1) \<and> search_segments [a, b, c] r = Some (Some d2)
     \<and> search_segments [a, b] r = Some None \<and> search_segments [a, b, x] r = Some None"
proof -
  obtain r where r: "register_all insert_segments [([a], d1), ([a, b, c], d2)] new_HttpRouter = Some r"
      "router_wf r" "rt_data (table_of r) = [[a] \<mapsto> d1, [a, b, c] \<mapsto> d2]"
      "rt_node (table_of r) = (\<lambda>xs. xs = [] \<or> prefix xs [a] \<or> prefix xs [a, b, c])"
    using tree.register_all_ok [OF router_wf_new, of "[([a], d1), ([a, b, c], d2)]"] assms
    by (auto simp: table_of_new route_empty_def)
  have "longest_node (rt_node (table_of r)) ks =
      (if ks = [a] then [a] else if ks = [a, b, c] then [a, b, c] else [a, b])"
    if "ks \<in> {[a], [a, b, c], [a, b], [a, b, x]}" for ks
    using that assms by (auto simp: longest_node_def r(4))
  with r assms show ?thesis
    by (cases "x = []") (auto simp: tree.lookup_ok route_search_def Let_def)
qed

theorem inner_node_shadows_prefix_witness:
  "\<exists>r. register_all insert_segments [([''hello''], 1), ([''hello'', ''test'', ''abc''], 2)]
        (new_HttpRouter :: nat http_router) = Some r
     \<and> search_segments [''hello''] r = Some (Some 1)
     \<and> search_segments [''hello'', ''test'', ''abc''] r = Some (Some 2)
     \<and> search_segments [''hello'', ''test''] r = Some None
     \<and> search_segments [''hello'', ''test'', ''xyz''] r = Some None"
  by (rule inner_node_shadows_prefix) simp_all

text \<open>
  C39. A path whose first segment is empty, such as \<open>//x\<close>, is accepted by \<open>insert\<close> but names no
  place of its own: the loop stops at once, so the data replaces the root's (that of \<open>/\<close>),
  no node is added and every other path keeps its data, while searching for the very
  path that was registered finds nothing.
\<close>

theorem empty_first_segment:
  assumes wf: "router_wf r" and segs: "segments_view path = Inr ([] # rest)"
    and ins: "router_insert segments_view path (Some d) r = Inr r'"
  shows "search_path segments_view path r' = Inr None
    \<and> search_segments [] r' = Some (Some d)
    \<and> table_of r' = (table_of r)\<lparr>rt_data := (rt_data (table_of r))([] \<mapsto> d)\<rparr>"
proof -
  from ins segs have reg: "insert_segments ([] # rest) d r = Some r'" and "char_at0 path = CHR ''/''"
    by (auto simp: router_insert_def split: if_splits option.splits)
  then have "path \<noteq> []" by auto
  note r' = tree.registerD [OF wf reg]
  have root: "rt_node (table_of r) []" using tree.node_root [OF wf] .
  have "search_path segments_view path r' = Inr None"
    using segs \<open>path \<noteq> []\<close> by (simp add: search_path_refines [OF r'(1)] r'(2) route_search_def longest_node_def root)
  moreover have "search_segments [] r' = Some (Some d)"
    using r' by (simp add: tree.lookup_ok route_search_def)
  moreover have "table_of r' = (table_of r)\<lparr>rt_data := (rt_data (table_of r))([] \<mapsto> d)\<rparr>"
    using root by (intro route_table.equality) (auto simp: r'(2) fun_eq_iff)
  ultimately show ?thesis by blast
qed

theorem empty_first_segment_witness:
  "\<exists>r1 r2. router_insert plain_segments ''/'' (Some (1::nat)) new_HttpRouter = Inr r1
     \<and> router_insert plain_segments ''//x'' (Some 2) r1 = Inr r2
     \<and> search_path plain_segments ''//x'' r2 = Inr None
     \<and> search_segments [] r2 = Some (Some 2)"
proof -
  obtain r1 where r1: "router_insert plain_segments ''/'' (Some (1::nat)) new_HttpRouter = Inr r1"
    by (simp add: run_router)
  then have wf: "router_wf r1"
    using tree.register_ok [OF router_wf_new, of "[]" "1::nat"]
    by (auto simp: router_insert_def plain_segments_def split: option.splits)
  obtain r2 where r2: "router_insert plain_segments ''//x'' (Some 2) r1 = Inr r2"
    using tree.register_ok [OF wf, of "[[], ''x'']" 2] by (auto simp: router_insert_def plain_segments_def)
  have "plain_segments ''//x'' = Inr ([] # [''x''])" by (simp add: plain_segments_def)
  from empty_first_segment [OF wf this r2] r1 r2 show ?thesis by blast
qed

subsection \<open>Destruction\<close>

text \<open>
  C7. \<open>~HttpRouter\<close> on a well-formed tree terminates within the depth bound, deletes every
  node exactly once (no address is freed that holds no node) and leaves no node allocated:
  no leak and no double free, whatever was registered before.
\<close>

theorem router_destructor_frees_all:
  assumes wf: "router_wf r" and "root r \<noteq> 0"
  shows "delete_HttpRouter r = Some (r\<lparr>heap := Map.empty, root := 0\<rparr>)"
  using assms by (rule delete_HttpRouter_ok)

theorem router_destructor_frees_all_witness:
  "delete_HttpRouter (new_HttpRouter :: nat http_router)
     = Some (new_HttpRouter\<lparr>heap := Map.empty, root := 0\<rparr>)"
  by (rule router_destructor_frees_all [OF router_wf_new])
    (simp add: new_HttpRouter_def new_HttpPathNode_def)

end
