(* ===== verification/Http_Types.thy ===== *)
theory Http_Types
  imports Std_Containers
begin

section \<open>Options, statistics and enumerations (http\_types.h, http\_statistics\_internal.h)\<close>

text \<open>
  The structs and enums the components share. Counters keep the width the code gives them:
  \<open>session_cnt_\<close> is 32 bits wide, all others 64. \<open>std::atomic\<close> increments, decrements,
  loads and stores are single steps of the model.
\<close>

subsection \<open>HttpServerOptions\<close>

record http_server_options =
  opt_addr :: string
  opt_port :: u16
  opt_thread_num :: u32
  opt_read_time_out :: u64
  opt_write_time_out :: u64
  opt_max_request_size :: u64
  opt_auto_gzip :: bool
  opt_auto_decode_url_parameters :: bool

definition default_options :: http_server_options where
  "default_options =
     \<lparr>opt_addr = ''0.0.0.0'', opt_port = 6000, opt_thread_num = 1, opt_read_time_out = 60,
      opt_write_time_out = 60, opt_max_request_size = 2097152, opt_auto_gzip = True,
      opt_auto_decode_url_parameters = True\<rparr>"

subsection \<open>Statistics: the internal counters and the snapshot handed out\<close>

record http_statistics_internal =
  session_cnt :: u32
  read_timeout_cnt :: u64
  read_success_cnt :: u64
  read_fail_cnt :: u64
  write_timeout_cnt :: u64
  write_success_cnt :: u64
  write_fail_cnt :: u64
  handle_request_cnt :: u64
  working_handler_cnt :: u64

definition zero_statistics :: http_statistics_internal where
  "zero_statistics =
     \<lparr>session_cnt = 0, read_timeout_cnt = 0, read_success_cnt = 0, read_fail_cnt = 0,
      write_timeout_cnt = 0, write_success_cnt = 0, write_fail_cnt = 0,
      handle_request_cnt = 0, working_handler_cnt = 0\<rparr>"

record http_statistics =
  hs_session_cnt :: u32
  hs_read_timeout_cnt :: u64
  hs_read_success_cnt :: u64
  hs_read_fail_cnt :: u64
  hs_write_timeout_cnt :: u64
  hs_write_success_cnt :: u64
  hs_write_fail_cnt :: u64
  hs_handler_request_cnt :: u64
  hs_working_handler_cnt :: u64

subsection \<open>Enumerations\<close>

datatype status_type = OK | Bad_Request | Internal_Server_Error | Service_Temporary_Unavailable

fun status_code :: "status_type \<Rightarrow> u32" where
  "status_code OK = 200"
| "status_code Bad_Request = 400"
| "status_code Internal_Server_Error = 500"
| "status_code Service_Temporary_Unavailable = 503"

text \<open>
  \<open>static_cast<MethodType>\<close> of a number without an enumerator yields a value that none of
  the names denotes; \<open>Unnamed\<close> keeps it apart.
\<close>

datatype method_type = Unknown | Delete | GET | HEAD | POST | PUT | Unnamed nat

definition method_cast :: "nat \<Rightarrow> method_type" where
  "method_cast n =
     (if n = 0 then Unknown else if n = 1 then Delete else if n = 2 then GET
      else if n = 3 then HEAD else if n = 4 then POST else if n = 5 then PUT else Unnamed n)"

datatype compression_level = NoCompression | BestSpeed | BestCompression | DefaultCompression

fun compression_level_int :: "compression_level \<Rightarrow> int" where
  "compression_level_int NoCompression = 0"
| "compression_level_int BestSpeed = 1"
| "compression_level_int BestCompression = 9"
| "compression_level_int DefaultCompression = -1"

lemma status_code_inj: "status_code s = status_code t \<longleftrightarrow> s = t"
  by (cases s; cases t) simp_all

lemma method_cast_named: "n \<le> 5 \<Longrightarrow> \<forall>m. method_cast n \<noteq> Unnamed m"
  by (auto simp: method_cast_def)

end
