(* ===== verification/Boost_Interface.thy ===== *)
theory Boost_Interface
  imports Http_Types
begin

section \<open>What the server uses of Boost\<close>

text \<open>
  Boost is not part of the repository. Everything the session calls of Boost.Beast,
  Boost.URL, Boost.StringAlgorithms and Boost.Iostreams is a field of the record \<open>boost\<close>,
  which the session's operations take as an argument; nothing about these functions is
  fixed here. Predicates such as \<open>response_laws\<close> collect the documented behaviour that
  some properties rely on; a property names the predicates it needs as hypotheses.
\<close>

subsection \<open>Messages and URLs as the code reads them\<close>

text \<open>
  \<open>beast::http::request<dynamic_body>\<close>: the parts the code reads. The method is the number
  of the \<open>beast::http::verb\<close> enumerator, since the code compares and casts it as a number.
  The fields are in iteration order.
\<close>

record beast_request =
  rq_method :: nat
  rq_target :: string
  rq_version :: nat
  rq_fields :: "(string \<times> string) list"
  rq_body :: string

record url_view =
  url_segments :: "string list"
  url_params :: "(string \<times> string) list"
  url_encoded_params :: "(string \<times> string) list"

text \<open>
  The record's fields, by library. Boost.URL: \<open>parse_origin_form\<close> (\<open>Inl\<close>: the error of the
  result) and the throwing constructor \<open>segments_view\<close>. Boost.StringAlgorithms:
  \<open>replace_all\<close>, \<open>icontains\<close>. Boost.Iostreams: \<open>gzip_compress\<close>, the output of
  \<open>gzip_compressor\<close> at a level. Beast requests: \<open>request_keep_alive\<close>,
  \<open>request_at\<close> (\<open>operator[]\<close>), \<open>read_into\<close> (the message after a successful read into an
  existing message object), three verb numbers and the names of the header fields.
  Beast responses of an abstract type \<open>'m\<close>: \<open>m_\<close>-prefixed mutators as the code calls them,
  and the observers \<open>m_status\<close>, \<open>m_field\<close>, \<open>m_body\<close> used to state properties.
\<close>

record 'm boost =
  parse_origin_form :: "string \<Rightarrow> string + url_view"
  segments_view :: "string \<Rightarrow> string + string list"
  replace_all :: "string \<Rightarrow> string \<Rightarrow> string \<Rightarrow> string"
  icontains :: "string \<Rightarrow> string \<Rightarrow> bool"
  gzip_compress :: "int \<Rightarrow> string \<Rightarrow> string"
  request_keep_alive :: "beast_request \<Rightarrow> bool"
  request_at :: "beast_request \<Rightarrow> string \<Rightarrow> string"
  read_into :: "beast_request \<Rightarrow> beast_request \<Rightarrow> beast_request"
  verb_get :: nat
  verb_head :: nat
  verb_put :: nat
  field_content_type :: string
  field_content_encoding :: string
  field_accept_encoding :: string
  m_new :: "'m"
  m_set_keep_alive :: "bool \<Rightarrow> 'm \<Rightarrow> 'm"
  m_keep_alive :: "'m \<Rightarrow> bool"
  m_result :: "u32 \<Rightarrow> 'm \<Rightarrow> 'm"
  m_set :: "string \<Rightarrow> string \<Rightarrow> 'm \<Rightarrow> 'm"
  m_write_body :: "string \<Rightarrow> 'm \<Rightarrow> 'm"
  m_prepare_payload :: "'m \<Rightarrow> 'm"
  m_clear :: "'m \<Rightarrow> 'm"
  m_clear_body :: "'m \<Rightarrow> 'm"
  m_status :: "'m \<Rightarrow> u32"
  m_field :: "'m \<Rightarrow> string \<Rightarrow> string option"
  m_body :: "'m \<Rightarrow> string"
  same_name :: "string \<Rightarrow> string \<Rightarrow> bool"
  decimal :: "nat \<Rightarrow> string"

subsection \<open>Documented behaviour\<close>

text \<open>
  Header field names compare as an equivalence (Beast: case-insensitively), and the field
  names the code and Beast itself write are different names.
\<close>

definition name_laws :: "'m boost \<Rightarrow> bool" where
  "name_laws B \<longleftrightarrow>
     (\<forall>a. same_name B a a)
     \<and> (\<forall>a b. same_name B a b \<longrightarrow> same_name B b a)
     \<and> (\<forall>a b c. same_name B a b \<longrightarrow> same_name B b c \<longrightarrow> same_name B a c)
     \<and> (\<forall>a \<in> {field_content_type B, field_content_encoding B}.
          \<not> same_name B a ''Connection'' \<and> \<not> same_name B a ''Content-Length''
          \<and> \<not> same_name B a ''Transfer-Encoding'')
     \<and> \<not> same_name B (field_content_type B) (field_content_encoding B)
     \<and> \<not> same_name B ''Connection'' ''Content-Length''"

text \<open>
  The response message: \<open>set\<close> replaces the value of a field, \<open>keep_alive(b)\<close> makes
  \<open>keep_alive()\<close> return \<open>b\<close> through the Connection field, \<open>result\<close> sets the status,
  \<open>ostream(body) << s\<close> appends, \<open>prepare_payload\<close> sets Content-Length from the body and
  touches no other field but Transfer-Encoding, \<open>clear\<close> removes all fields.
\<close>

definition response_laws :: "'m boost \<Rightarrow> bool" where
  "response_laws B \<longleftrightarrow>
     m_body B (m_new B) = [] \<and> (\<forall>n. m_field B (m_new B) n = None)
     \<and> (\<forall>b m. m_keep_alive B (m_set_keep_alive B b m) = b
          \<and> m_status B (m_set_keep_alive B b m) = m_status B m
          \<and> m_body B (m_set_keep_alive B b m) = m_body B m
          \<and> (\<forall>n. \<not> same_name B ''Connection'' n \<longrightarrow>
               m_field B (m_set_keep_alive B b m) n = m_field B m n))
     \<and> (\<forall>s m. m_keep_alive B (m_result B s m) = m_keep_alive B m
          \<and> m_status B (m_result B s m) = s
          \<and> m_body B (m_result B s m) = m_body B m
          \<and> (\<forall>n. m_field B (m_result B s m) n = m_field B m n))
     \<and> (\<forall>n v m. (\<not> same_name B n ''Connection'' \<longrightarrow>
             m_keep_alive B (m_set B n v m) = m_keep_alive B m)
          \<and> m_status B (m_set B n v m) = m_status B m
          \<and> m_body B (m_set B n v m) = m_body B m
          \<and> (\<forall>n'. m_field B (m_set B n v m) n' =
               (if same_name B n n' then Some v else m_field B m n')))
     \<and> (\<forall>s m. m_keep_alive B (m_write_body B s m) = m_keep_alive B m
          \<and> m_status B (m_write_body B s m) = m_status B m
          \<and> m_body B (m_write_body B s m) = m_body B m @ s
          \<and> (\<forall>n. m_field B (m_write_body B s m) n = m_field B m n))
     \<and> (\<forall>m. m_keep_alive B (m_prepare_payload B m) = m_keep_alive B m
          \<and> m_status B (m_prepare_payload B m) = m_status B m
          \<and> m_body B (m_prepare_payload B m) = m_body B m
          \<and> m_field B (m_prepare_payload B m) ''Content-Length'' =
              Some (decimal B (length (m_body B m)))
          \<and> (\<forall>n. \<not> same_name B ''Content-Length'' n \<longrightarrow> \<not> same_name B ''Transfer-Encoding'' n \<longrightarrow>
               m_field B (m_prepare_payload B m) n = m_field B m n))
     \<and> (\<forall>m n. m_field B (m_clear B m) n = None)
     \<and> (\<forall>m. m_body B (m_clear_body B m) = []
          \<and> (\<forall>n. m_field B (m_clear_body B m) n = m_field B m n))"

text \<open>
  A successful read into a message whose body is empty yields the message received.
  (Beast appends the payload to what the body buffer already holds.)
\<close>

definition read_laws :: "'m boost \<Rightarrow> bool" where
  "read_laws B \<longleftrightarrow> (\<forall>old msg. rq_body old = [] \<longrightarrow> read_into B old msg = msg)"

text \<open>The documented numbering of \<open>beast::http::verb\<close>: unknown, delete, get, head, post, put.\<close>

definition verb_laws :: "'m boost \<Rightarrow> bool" where
  "verb_laws B \<longleftrightarrow> verb_get B = 2 \<and> verb_head B = 3 \<and> verb_put B = 5"

text \<open>A response message without any header field and without payload.\<close>

definition clean_response :: "'m boost \<Rightarrow> 'm \<Rightarrow> bool" where
  "clean_response B m \<longleftrightarrow> m_body B m = [] \<and> (\<forall>n. m_field B m n = None)"

lemma clean_new: "response_laws B \<Longrightarrow> clean_response B (m_new B)"
  by (simp add: response_laws_def clean_response_def)

lemma clean_cleared: "response_laws B \<Longrightarrow> clean_response B (m_clear_body B (m_clear B m))"
  by (simp add: response_laws_def clean_response_def)

end
