(* ===== verification/Http_Message.thy ===== *)
theory Http_Message
  imports Http_Types
begin

section \<open>Requests and responses handed to and from handlers (http\_request, http\_response)\<close>

text \<open>
  \<open>HttpRequest\<close> is filled by the session and only read by handlers; its constructor leaves
  \<open>method_\<close> uninitialised, here \<open>None\<close>. \<open>HttpResponse\<close> is built by handlers through chained
  setters. Neither class has a move constructor (both declare a destructor), so
  \<open>std::move\<close> copies them.
\<close>

subsection \<open>HttpRequest\<close>

record http_request =
  req_method :: "method_type option"
  req_session_id :: u64
  req_request_id :: u64
  req_body :: string
  req_segments :: "string list"
  req_headers :: "(string, string) std_map"
  req_params :: "(string, string) std_map"
  req_start_time :: int

definition new_HttpRequest :: "u64 \<Rightarrow> u64 \<Rightarrow> http_request" where
  "new_HttpRequest session_id request_id =
     \<lparr>req_method = None, req_session_id = session_id, req_request_id = request_id,
      req_body = [], req_segments = [], req_headers = [], req_params = [], req_start_time = 0\<rparr>"

text \<open>The getters a handler reads the request with.\<close>

definition HttpRequest_method :: "http_request \<Rightarrow> method_type option" where
  "HttpRequest_method request = req_method request"

definition sessionId :: "http_request \<Rightarrow> u64" where
  "sessionId request = req_session_id request"

definition requestId :: "http_request \<Rightarrow> u64" where
  "requestId request = req_request_id request"

definition HttpRequest_headers :: "http_request \<Rightarrow> (string, string) std_map" where
  "HttpRequest_headers request = req_headers request"

definition HttpRequest_params :: "http_request \<Rightarrow> (string, string) std_map" where
  "HttpRequest_params request = req_params request"

definition HttpRequest_body :: "http_request \<Rightarrow> string" where
  "HttpRequest_body request = req_body request"

definition HttpRequest_segments :: "http_request \<Rightarrow> string list" where
  "HttpRequest_segments request = req_segments request"

definition startTime :: "http_request \<Rightarrow> int" where
  "startTime request = req_start_time request"

lemmas request_getters = HttpRequest_method_def sessionId_def requestId_def HttpRequest_headers_def
  HttpRequest_params_def HttpRequest_body_def HttpRequest_segments_def startTime_def

subsection \<open>HttpResponse\<close>

record http_response =
  rsp_force_gzip :: bool
  rsp_force_disable_keep_alive :: bool
  rsp_status :: status_type
  rsp_content_type :: string
  rsp_compression_level :: compression_level
  rsp_body :: string
  rsp_headers :: "(string, string) std_map"

definition new_HttpResponse :: "status_type \<Rightarrow> string \<Rightarrow> string \<Rightarrow> http_response" where
  "new_HttpResponse status body content_type =
     \<lparr>rsp_force_gzip = False, rsp_force_disable_keep_alive = False, rsp_status = status,
      rsp_content_type = content_type, rsp_compression_level = BestSpeed, rsp_body = body,
      rsp_headers = []\<rparr>"

definition forceGzip :: "http_response \<Rightarrow> http_response" where
  "forceGzip rsp = rsp\<lparr>rsp_force_gzip := True\<rparr>"

definition forceDisableKeepAlive :: "http_response \<Rightarrow> http_response" where
  "forceDisableKeepAlive rsp = rsp\<lparr>rsp_force_disable_keep_alive := True\<rparr>"

definition compressionLevel :: "compression_level \<Rightarrow> http_response \<Rightarrow> http_response" where
  "compressionLevel level rsp = rsp\<lparr>rsp_compression_level := level\<rparr>"

definition header :: "string \<Rightarrow> string \<Rightarrow> http_response \<Rightarrow> http_response" where
  "header name value rsp = rsp\<lparr>rsp_headers := std_map_put name value (rsp_headers rsp)\<rparr>"

text \<open>
  A response a handler can have built: the constructor, then any chain of setters. Every
  such response keeps its headers sorted by name without duplicates.
\<close>

inductive built_response :: "http_response \<Rightarrow> bool" where
  built_new: "built_response (new_HttpResponse status body content_type)"
| built_gzip: "built_response rsp \<Longrightarrow> built_response (forceGzip rsp)"
| built_no_keep_alive: "built_response rsp \<Longrightarrow> built_response (forceDisableKeepAlive rsp)"
| built_level: "built_response rsp \<Longrightarrow> built_response (compressionLevel level rsp)"
| built_header: "built_response rsp \<Longrightarrow> built_response (header name value rsp)"

lemma built_response_headers: "built_response rsp \<Longrightarrow> std_map_invar (rsp_headers rsp)"
  by (induction rule: built_response.induct)
    (auto simp: new_HttpResponse_def forceGzip_def forceDisableKeepAlive_def compressionLevel_def
      header_def std_map.invar_empty intro: std_map.invar_put)

subsection \<open>Chains of setters\<close>

text \<open>A chain of setter calls on a new response, as a list.\<close>

datatype setter = Force_Gzip | Force_Disable_Keep_Alive | Compression_Level compression_level
  | Header string string

primrec apply_setter :: "setter \<Rightarrow> http_response \<Rightarrow> http_response" where
  "apply_setter Force_Gzip = forceGzip"
| "apply_setter Force_Disable_Keep_Alive = forceDisableKeepAlive"
| "apply_setter (Compression_Level level) = compressionLevel level"
| "apply_setter (Header name value) = header name value"

definition build_response :: "status_type \<Rightarrow> string \<Rightarrow> string \<Rightarrow> setter list \<Rightarrow> http_response" where
  "build_response status body content_type cs =
     fold apply_setter cs (new_HttpResponse status body content_type)"

text \<open>What a chain says: the last level, and the last value of each header.\<close>

definition chain_level :: "setter list \<Rightarrow> compression_level" where
  "chain_level cs = last (BestSpeed # [level. Compression_Level level \<leftarrow> cs])"

definition chain_headers :: "setter list \<Rightarrow> string \<rightharpoonup> string" where
  "chain_headers cs = map_of (rev [(name, value). Header name value \<leftarrow> cs])"

lemmas setter_defs = forceGzip_def forceDisableKeepAlive_def compressionLevel_def header_def

lemma build_response_built: "built_response (build_response status body content_type cs)"
proof (induction cs rule: rev_induct)
  case (snoc c cs)
  then show ?case by (cases c) (auto simp: build_response_def intro: built_response.intros)
qed (simp add: build_response_def built_new)

lemma build_response_fields:
  fixes status body content_type cs
  defines "rsp \<equiv> build_response status body content_type cs"
  shows "rsp_status rsp = status" and "rsp_body rsp = body" and "rsp_content_type rsp = content_type"
    and "rsp_force_gzip rsp \<longleftrightarrow> Force_Gzip \<in> set cs"
    and "rsp_force_disable_keep_alive rsp \<longleftrightarrow> Force_Disable_Keep_Alive \<in> set cs"
    and "rsp_compression_level rsp = chain_level cs"
    and "std_map_find (rsp_headers rsp) = chain_headers cs"
proof -
  have "rsp_status rsp = status \<and> rsp_body rsp = body \<and> rsp_content_type rsp = content_type
    \<and> (rsp_force_gzip rsp \<longleftrightarrow> Force_Gzip \<in> set cs)
    \<and> (rsp_force_disable_keep_alive rsp \<longleftrightarrow> Force_Disable_Keep_Alive \<in> set cs)
    \<and> rsp_compression_level rsp = chain_level cs
    \<and> std_map_find (rsp_headers rsp) = chain_headers cs"
    unfolding rsp_def
  proof (induction cs rule: rev_induct)
    case (snoc c cs)
    have inv: "std_map_invar (rsp_headers (build_response status body content_type cs))"
      by (rule built_response_headers [OF build_response_built])
    show ?case
      using snoc std_map.find_put [OF inv]
      by (cases c) (auto simp: build_response_def setter_defs chain_level_def chain_headers_def fun_eq_iff)
  qed (auto simp: build_response_def new_HttpResponse_def chain_level_def chain_headers_def std_map_find_def)
  then show "rsp_status rsp = status" and "rsp_body rsp = body" and "rsp_content_type rsp = content_type"
    and "rsp_force_gzip rsp \<longleftrightarrow> Force_Gzip \<in> set cs"
    and "rsp_force_disable_keep_alive rsp \<longleftrightarrow> Force_Disable_Keep_Alive \<in> set cs"
    and "rsp_compression_level rsp = chain_level cs"
    and "std_map_find (rsp_headers rsp) = chain_headers cs" by blast+
qed

text \<open>
  C40. Only what a chain of setters says matters, not its order: two chains on equal constructor
  arguments build the same response, down to the order of its headers, exactly when both
  or neither force compression, both or neither disable keep-alive, their last level (the
  default without one) is the same, and every header has the same last value in both.
\<close>

theorem setters_equivalent:
  "build_response status body content_type cs = build_response status body content_type ds \<longleftrightarrow>
     (Force_Gzip \<in> set cs \<longleftrightarrow> Force_Gzip \<in> set ds)
     \<and> (Force_Disable_Keep_Alive \<in> set cs \<longleftrightarrow> Force_Disable_Keep_Alive \<in> set ds)
     \<and> chain_level cs = chain_level ds \<and> chain_headers cs = chain_headers ds"
  (is "?r cs = ?r ds \<longleftrightarrow> ?same")
proof
  assume "?r cs = ?r ds"
  with build_response_fields [of status body content_type] show ?same by metis
next
  assume same: ?same
  have "rsp_headers (?r cs) = rsp_headers (?r ds)"
    by (rule std_map_ext) (simp_all add: built_response_headers build_response_built
        build_response_fields same)
  with same show "?r cs = ?r ds"
    by (intro http_response.equality) (simp_all add: build_response_fields)
qed

end
