(* ===== verification/Http_Session.thy ===== *)
theory Http_Session
  imports Http_Router Boost_Interface Http_Message
begin

section \<open>The session (src/src/http\_session.h, http\_session.cpp)\<close>

text \<open>
  One \<open>HttpSession\<close> serves one connection: it reads a request, has it handled, writes the
  response and reads the next one. The session object is a record; each method is a
  function on the pair of the session and the server's statistics, composed as the code
  composes them. \<open>async_read\<close> and \<open>async_write\<close> add an entry to the list of outstanding
  operations; their completion is an event (theory \<open>Http_Session_Steps\<close>) that calls
  \<open>onRead\<close> or \<open>onWrite\<close>. The outstanding write carries the response message as it was when
  the write was started and the \<open>keep_alive\<close> value bound into the completion handler.
  (\<open>async_write\<close> refers to \<open>response_\<close>, which stays as it is until the write completes unless a
  handler sends a second time; C33 shows what the message object holds then, and what of it the
  first write would still send is not modelled.)

  Parameters: the Boost functions \<open>B\<close>, the options, the router, the behaviour \<open>handle\<close> of
  the registered handlers (user code) and the clock value \<open>now\<close>. What the methods log, which
  has no effect on the session, is in \<open>Http_Server_Log\<close>.
\<close>

subsection \<open>Data\<close>

datatype error_code = Success | End_Of_Stream | Timeout | Other_Error string

datatype expiry = Expires_Never | Expires_After u64

datatype 'm io_op = Async_Read | Async_Write 'm bool

record 'm http_session =
  ses_id :: u64
  ses_current_request_id :: u64
  ses_open :: bool
  ses_expiry :: expiry
  ses_buffer_max :: u64
  ses_request :: beast_request
  ses_response :: "'m"
  ses_pending :: "'m io_op list"
  ses_writers :: nat

text \<open>\<open>ses_writers\<close> counts the \<open>HttpResponseWriter\<close>s that handlers keep for later.\<close>

record 'm session_world =
  sw_session :: "'m http_session"
  sw_stats :: http_statistics_internal

abbreviation upd_session ::
    "('m http_session \<Rightarrow> 'm http_session) \<Rightarrow> 'm session_world \<Rightarrow> 'm session_world" where
  "upd_session f w \<equiv> w\<lparr>sw_session := f (sw_session w)\<rparr>"

abbreviation upd_stats ::
    "(http_statistics_internal \<Rightarrow> http_statistics_internal) \<Rightarrow> 'm session_world \<Rightarrow> 'm session_world" where
  "upd_stats f w \<equiv> w\<lparr>sw_stats := f (sw_stats w)\<rparr>"

text \<open>
  What a handler does during \<open>handle\<close>: the responses it sends at once, in order, and
  whether it keeps a copy of the writer to answer later. There is no exception among the
  outcomes: \<open>handle\<close> is \<open>noexcept\<close>, so a handler that throws ends the program.
\<close>

record handle_outcome =
  sent_now :: "http_response list"
  kept_writer :: bool

definition empty_request :: beast_request where
  "empty_request = \<lparr>rq_method = 0, rq_target = [], rq_version = 11, rq_fields = [], rq_body = []\<rparr>"

subsection \<open>Construction and destruction\<close>

text \<open>
  The constructor, after \<open>id_(++s_id)\<close>: it takes the new session number, registers the
  session in the statistics and leaves the socket open.
\<close>

definition new_HttpSession ::
    "'m boost \<Rightarrow> http_server_options \<Rightarrow> u64 \<Rightarrow> http_statistics_internal \<Rightarrow> 'm session_world" where
  "new_HttpSession B opts new_id stats =
     \<lparr>sw_session =
        \<lparr>ses_id = new_id, ses_current_request_id = 0, ses_open = True, ses_expiry = Expires_Never,
         ses_buffer_max = opt_max_request_size opts, ses_request = empty_request,
         ses_response = m_new B, ses_pending = [], ses_writers = 0\<rparr>,
      sw_stats = stats\<lparr>session_cnt := session_cnt stats + 1\<rparr>\<rparr>"

definition doClose :: "'m session_world \<Rightarrow> 'm session_world" where
  "doClose w = (if ses_open (sw_session w) then upd_session (\<lambda>s. s\<lparr>ses_open := False\<rparr>) w else w)"

definition delete_HttpSession :: "'m session_world \<Rightarrow> 'm session_world" where
  "delete_HttpSession w =
     doClose (upd_stats (\<lambda>t. t\<lparr>session_cnt := session_cnt t - 1\<rparr>) w)"

subsection \<open>Reading\<close>

definition doRead :: "http_server_options \<Rightarrow> 'm session_world \<Rightarrow> 'm session_world" where
  "doRead opts w =
     upd_session (\<lambda>s. s\<lparr>ses_current_request_id := ses_current_request_id s + 1,
         ses_expiry := (if opt_read_time_out opts \<noteq> 0
                        then Expires_After (opt_read_time_out opts) else Expires_Never),
         ses_pending := ses_pending s @ [Async_Read]\<rparr>) w"

text \<open>\<open>run\<close> dispatches \<open>doRead\<close> on the session's strand.\<close>

definition session_run :: "http_server_options \<Rightarrow> 'm session_world \<Rightarrow> 'm session_world" where
  "session_run opts w = doRead opts w"

subsection \<open>Writing\<close>

definition doWrite :: "'m boost \<Rightarrow> http_server_options \<Rightarrow> 'm session_world \<Rightarrow> 'm session_world" where
  "doWrite B opts w =
     upd_session (\<lambda>s. s\<lparr>ses_expiry := (if opt_write_time_out opts \<noteq> 0
                        then Expires_After (opt_write_time_out opts) else Expires_Never),
         ses_pending := ses_pending s
           @ [Async_Write (ses_response s) (m_keep_alive B (ses_response s))]\<rparr>) w"

definition compressData :: "'m boost \<Rightarrow> compression_level \<Rightarrow> string \<Rightarrow> string" where
  "compressData B level data = gzip_compress B (compression_level_int level) data"

text \<open>Whether \<open>writeResponse\<close> compresses the body.\<close>

definition use_gzip :: "'m boost \<Rightarrow> http_server_options \<Rightarrow> beast_request \<Rightarrow> http_response \<Rightarrow> bool" where
  "use_gzip B opts req rsp \<longleftrightarrow>
     rsp_force_gzip rsp
     \<or> length (rsp_body rsp) > 500 \<and> opt_auto_gzip opts
       \<and> (icontains B (request_at B req (field_accept_encoding B)) ''gzip''
          \<or> icontains B (request_at B req (field_accept_encoding B)) ''*'')"

definition fill_response ::
    "'m boost \<Rightarrow> http_server_options \<Rightarrow> beast_request \<Rightarrow> http_response \<Rightarrow> 'm \<Rightarrow> 'm" where
  "fill_response B opts req rsp m =
     (let m = (if rsp_force_disable_keep_alive rsp then m_set_keep_alive B False m
               else m_set_keep_alive B (request_keep_alive B req) m);
          m = m_result B (status_code (rsp_status rsp)) m;
          m = m_set B (field_content_type B) (rsp_content_type rsp) m;
          m = put_all (m_set B) (rsp_headers rsp) m;
          m = (if use_gzip B opts req rsp then m_set B (field_content_encoding B) ''gzip'' m else m);
          body = (if use_gzip B opts req rsp
                  then compressData B (rsp_compression_level rsp) (rsp_body rsp) else rsp_body rsp)
      in if length body > 0
         then m_prepare_payload B
                (if rq_method req \<noteq> verb_head B then m_write_body B body m else m)
         else m)"

definition writeResponse ::
    "'m boost \<Rightarrow> http_server_options \<Rightarrow> http_response \<Rightarrow> 'm session_world \<Rightarrow> 'm session_world" where
  "writeResponse B opts rsp w =
     doWrite B opts
       (upd_session (\<lambda>s. s\<lparr>ses_response :=
           fill_response B opts (ses_request s) rsp (ses_response s)\<rparr>) w)"

subsection \<open>Handling a request\<close>

definition parse_target :: "'m boost \<Rightarrow> beast_request \<Rightarrow> string + url_view" where
  "parse_target B req =
     (if rq_method req = verb_get B \<and> str_has CHR ''|'' (rq_target req)
      then parse_origin_form B (replace_all B (rq_target req) ''|'' ''%7C'')
      else parse_origin_form B (rq_target req))"

definition clear_request_body :: "'m session_world \<Rightarrow> 'm session_world" where
  "clear_request_body w = upd_session (\<lambda>s. s\<lparr>ses_request := (ses_request s)\<lparr>rq_body := []\<rparr>\<rparr>) w"

definition count_handled :: "'m session_world \<Rightarrow> 'm session_world" where
  "count_handled w = upd_stats (\<lambda>t. t\<lparr>handle_request_cnt := handle_request_cnt t + 1\<rparr>) w"

text \<open>The three refusals: count, answer 400 with a fixed text, drop the request body.\<close>

definition refuse ::
    "'m boost \<Rightarrow> http_server_options \<Rightarrow> string \<Rightarrow> 'm session_world \<Rightarrow> 'm session_world" where
  "refuse B opts reason w =
     clear_request_body
       (writeResponse B opts (new_HttpResponse Bad_Request reason ''text/plain'') (count_handled w))"

text \<open>The \<open>HttpRequest\<close> built from the message, the URL and the session's numbers.\<close>

definition build_request ::
    "http_server_options \<Rightarrow> int \<Rightarrow> 'm http_session \<Rightarrow> url_view \<Rightarrow> http_request" where
  "build_request opts now s url =
     (let req = ses_request s;
          r = new_HttpRequest (ses_id s) (ses_current_request_id s);
          r = r\<lparr>req_start_time := now\<rparr>;
          r = r\<lparr>req_method := Some (method_cast (rq_method req))\<rparr>;
          r = r\<lparr>req_headers := put_all std_map_put (rq_fields req) (req_headers r)\<rparr>;
          r = r\<lparr>req_segments := req_segments r @ url_segments url\<rparr>;
          r = r\<lparr>req_params := put_all std_map_put
                 (if opt_auto_decode_url_parameters opts then url_params url
                  else url_encoded_params url) (req_params r)\<rparr>
      in if length (rq_body req) > 0 then r\<lparr>req_body := rq_body req\<rparr> else r)"

text \<open>\<open>handler->handle(request, writer)\<close>: sends at once, keeps the writer or drops it.\<close>

fun send_all ::
    "'m boost \<Rightarrow> http_server_options \<Rightarrow> http_response list \<Rightarrow> 'm session_world \<Rightarrow> 'm session_world" where
  "send_all B opts [] w = w"
| "send_all B opts (rsp # rsps) w = send_all B opts rsps (writeResponse B opts rsp w)"

definition run_handler ::
    "'m boost \<Rightarrow> http_server_options \<Rightarrow> handle_outcome \<Rightarrow> 'm session_world \<Rightarrow> 'm session_world" where
  "run_handler B opts out w =
     upd_session (\<lambda>s. s\<lparr>ses_writers := ses_writers s + (if kept_writer out then 1 else 0)\<rparr>)
       (send_all B opts (sent_now out) w)"

definition dispatch_request ::
    "'m boost \<Rightarrow> http_server_options \<Rightarrow> (http_request \<Rightarrow> handle_outcome) \<Rightarrow> int \<Rightarrow> url_view
       \<Rightarrow> 'm session_world \<Rightarrow> 'm session_world" where
  "dispatch_request B opts handle_request now url w =
     (let request = build_request opts now (sw_session w) url;
          w = (if length (rq_body (ses_request (sw_session w))) > 0 then clear_request_body w else w);
          w = upd_stats (\<lambda>t. t\<lparr>working_handler_cnt := working_handler_cnt t + 1\<rparr>) w;
          w = run_handler B opts (handle_request request) w;
          w = upd_stats (\<lambda>t. t\<lparr>working_handler_cnt := working_handler_cnt t - 1\<rparr>) w
      in count_handled w)"

text \<open>\<open>None\<close>: the router followed a bad pointer.\<close>

definition processRequest ::
    "'m boost \<Rightarrow> http_server_options \<Rightarrow> 'h http_router \<Rightarrow> ('h \<Rightarrow> http_request \<Rightarrow> handle_outcome)
       \<Rightarrow> int \<Rightarrow> 'm session_world \<Rightarrow> 'm session_world option" where
  "processRequest B opts router handle now w =
     (case parse_target B (ses_request (sw_session w)) of
        Inl e \<Rightarrow> Some (refuse B opts ''url invalid'' w)
      | Inr url \<Rightarrow>
          (case search_segments (url_segments url) router of
             None \<Rightarrow> None
           | Some None \<Rightarrow> Some (refuse B opts ''current url not support'' w)
           | Some (Some handler) \<Rightarrow>
               if rq_method (ses_request (sw_session w)) > verb_put B
               then Some (refuse B opts ''current method not support'' w)
               else Some (dispatch_request B opts (handle handler) now url w)))"

subsection \<open>Completion handlers\<close>

definition onRead ::
    "'m boost \<Rightarrow> http_server_options \<Rightarrow> 'h http_router \<Rightarrow> ('h \<Rightarrow> http_request \<Rightarrow> handle_outcome)
       \<Rightarrow> int \<Rightarrow> error_code \<Rightarrow> 'm session_world \<Rightarrow> 'm session_world option" where
  "onRead B opts router handle now ec w =
     (if ec = End_Of_Stream then Some (doClose w)
      else if ec = Timeout
      then Some (doClose (upd_stats (\<lambda>t. t\<lparr>read_timeout_cnt := read_timeout_cnt t + 1\<rparr>) w))
      else if ec \<noteq> Success
      then Some (doClose (upd_stats (\<lambda>t. t\<lparr>read_fail_cnt := read_fail_cnt t + 1\<rparr>) w))
      else processRequest B opts router handle now
             (upd_stats (\<lambda>t. t\<lparr>read_success_cnt := read_success_cnt t + 1\<rparr>) w))"

definition onWrite ::
    "'m boost \<Rightarrow> http_server_options \<Rightarrow> bool \<Rightarrow> error_code \<Rightarrow> 'm session_world \<Rightarrow> 'm session_world" where
  "onWrite B opts keep_alive ec w =
     (if ec = Timeout
      then doClose (upd_stats (\<lambda>t. t\<lparr>write_timeout_cnt := write_timeout_cnt t + 1\<rparr>) w)
      else if ec \<noteq> Success
      then doClose (upd_stats (\<lambda>t. t\<lparr>write_fail_cnt := write_fail_cnt t + 1\<rparr>) w)
      else if \<not> keep_alive
      then doClose (upd_stats (\<lambda>t. t\<lparr>write_success_cnt := write_success_cnt t + 1\<rparr>) w)
      else doRead opts
             (upd_stats (\<lambda>t. t\<lparr>write_success_cnt := write_success_cnt t + 1\<rparr>)
               (upd_session (\<lambda>s. s\<lparr>ses_response := m_clear_body B (m_clear B (ses_response s))\<rparr>) w)))"

declare clear_request_body_def [session_simps] count_handled_def [session_simps]
  refuse_def [session_simps] run_handler_def [session_simps]

declare new_HttpSession_def [start_simps] session_run_def [start_simps] doRead_def [start_simps]

end
