(* ===== verification/Boost_Reference.thy ===== *)
theory Boost_Reference
  imports Boost_Interface
begin

section \<open>A concrete instance of the Boost interface\<close>

text \<open>
  An executable instance of \<open>boost\<close> that satisfies all the documented behaviour collected
  in \<open>Boost_Interface\<close>, so that the hypotheses of the properties are consistent and their
  witnesses can be evaluated. It claims nothing about Boost itself: header fields are an
  association list with names compared without case, a URL is cut at \<open>?\<close>, \<open>/\<close>, \<open>&\<close> and \<open>=\<close>
  without percent-decoding, and compression prefixes one character.
\<close>

definition lower :: "char \<Rightarrow> char" where
  "lower c = (let n = of_char c :: nat in if 65 \<le> n \<and> n \<le> 90 then char_of (n + 32) else c)"

definition ref_same_name :: "string \<Rightarrow> string \<Rightarrow> bool" where
  "ref_same_name a b \<longleftrightarrow> map lower a = map lower b"

record ref_message =
  rm_status :: u32
  rm_keep_alive :: bool
  rm_fields :: "(string \<times> string) list"
  rm_body :: string

definition ref_set :: "string \<Rightarrow> string \<Rightarrow> ref_message \<Rightarrow> ref_message" where
  "ref_set n v m =
     m\<lparr>rm_fields := (n, v) # filter (\<lambda>(k, _). \<not> ref_same_name k n) (rm_fields m),
       rm_keep_alive := (if ref_same_name n ''Connection'' then v \<noteq> ''close'' else rm_keep_alive m)\<rparr>"

definition ref_field :: "ref_message \<Rightarrow> string \<Rightarrow> string option" where
  "ref_field m n = map_option snd (find (\<lambda>(k, _). ref_same_name k n) (rm_fields m))"

fun split_on :: "char \<Rightarrow> string \<Rightarrow> string list" where
  "split_on d [] = [[]]"
| "split_on d (c # cs) =
     (if c = d then [] # split_on d cs
      else (case split_on d cs of [] \<Rightarrow> [[c]] | s # ss \<Rightarrow> (c # s) # ss))"

definition key_value :: "string \<Rightarrow> string \<times> string" where
  "key_value s = (takeWhile (\<lambda>c. c \<noteq> CHR ''='') s, drop 1 (dropWhile (\<lambda>c. c \<noteq> CHR ''='') s))"

definition ref_segments :: "string \<Rightarrow> string + string list" where
  "ref_segments path =
     (case path of [] \<Rightarrow> Inr [] | c # cs \<Rightarrow> if cs = [] then Inr [] else Inr (split_on CHR ''/'' cs))"

definition ref_parse :: "string \<Rightarrow> string + url_view" where
  "ref_parse target =
     (if char_at0 target \<noteq> CHR ''/'' \<or> str_has CHR ''|'' target then Inl ''invalid''
      else let path = takeWhile (\<lambda>c. c \<noteq> CHR ''?'') target;
               query = drop 1 (dropWhile (\<lambda>c. c \<noteq> CHR ''?'') target);
               params = (if query = [] then [] else map key_value (split_on CHR ''&'' query))
           in case ref_segments path of
                Inl e \<Rightarrow> Inl e
              | Inr ss \<Rightarrow> Inr \<lparr>url_segments = ss, url_params = params, url_encoded_params = params\<rparr>)"

definition ref_boost :: "ref_message boost" where
  "ref_boost =
     \<lparr>parse_origin_form = ref_parse, segments_view = ref_segments,
      replace_all = (\<lambda>s a b. concat (map (\<lambda>c. if [c] = a then b else [c]) s)),
      icontains = (\<lambda>s t. str_contains (map lower t) (map lower s)),
      gzip_compress = (\<lambda>level s. CHR ''Z'' # s),
      request_keep_alive = (\<lambda>req. map_of (rq_fields req) ''Connection'' \<noteq> Some ''close''),
      request_at = (\<lambda>req n. case find (\<lambda>(k, _). ref_same_name k n) (rq_fields req) of
                      None \<Rightarrow> [] | Some (_, v) \<Rightarrow> v),
      read_into = (\<lambda>old msg. msg\<lparr>rq_body := rq_body old @ rq_body msg\<rparr>),
      verb_get = 2, verb_head = 3, verb_put = 5,
      field_content_type = ''Content-Type'', field_content_encoding = ''Content-Encoding'',
      field_accept_encoding = ''Accept-Encoding'',
      m_new = \<lparr>rm_status = 200, rm_keep_alive = True, rm_fields = [], rm_body = []\<rparr>,
      m_set_keep_alive = (\<lambda>b m. m\<lparr>rm_keep_alive := b\<rparr>), m_keep_alive = rm_keep_alive,
      m_result = (\<lambda>s m. m\<lparr>rm_status := s\<rparr>), m_set = ref_set,
      m_write_body = (\<lambda>s m. m\<lparr>rm_body := rm_body m @ s\<rparr>),
      m_prepare_payload = (\<lambda>m. ref_set ''Content-Length'' (digits (length (rm_body m))) m),
      m_clear = (\<lambda>m. m\<lparr>rm_fields := []\<rparr>), m_clear_body = (\<lambda>m. m\<lparr>rm_body := []\<rparr>),
      m_status = rm_status, m_field = ref_field, m_body = rm_body,
      same_name = ref_same_name, decimal = digits\<rparr>"

lemma ref_field_set:
  "ref_field (ref_set n v m) n' = (if ref_same_name n n' then Some v else ref_field m n')"
proof -
  have "find (\<lambda>(k, _). ref_same_name k n') (filter (\<lambda>(k, _). \<not> ref_same_name k n) fs) =
      find (\<lambda>(k, _). ref_same_name k n') fs"
    if "\<not> ref_same_name n n'" for fs :: "(string \<times> string) list"
    using that by (induction fs) (auto simp: ref_same_name_def)
  then show ?thesis by (simp add: ref_field_def ref_set_def)
qed

lemma ref_set_sels:
  "rm_status (ref_set n v m) = rm_status m" "rm_body (ref_set n v m) = rm_body m"
  "\<not> ref_same_name n ''Connection'' \<Longrightarrow> rm_keep_alive (ref_set n v m) = rm_keep_alive m"
  by (simp_all add: ref_set_def)

lemma ref_names:
  "\<not> ref_same_name ''Content-Type'' ''Connection''"
  "\<not> ref_same_name ''Content-Type'' ''Content-Length''"
  "\<not> ref_same_name ''Content-Type'' ''Transfer-Encoding''"
  "\<not> ref_same_name ''Content-Encoding'' ''Connection''"
  "\<not> ref_same_name ''Content-Encoding'' ''Content-Length''"
  "\<not> ref_same_name ''Content-Encoding'' ''Transfer-Encoding''"
  "\<not> ref_same_name ''Content-Type'' ''Content-Encoding''"
  "\<not> ref_same_name ''Connection'' ''Content-Length''"
  "\<not> ref_same_name ''Content-Length'' ''Connection''"
  "ref_same_name ''Content-Length'' ''Content-Length''"
  by (simp_all add: ref_same_name_def lower_def)

lemma ref_name_laws: "name_laws ref_boost"
  unfolding name_laws_def by (simp add: ref_boost_def ref_names) (simp add: ref_same_name_def)

lemma ref_field_upd:
  "ref_field (m\<lparr>rm_status := s\<rparr>) = ref_field m" "ref_field (m\<lparr>rm_keep_alive := b\<rparr>) = ref_field m"
  "ref_field (m\<lparr>rm_body := x\<rparr>) = ref_field m"
  by (simp_all add: ref_field_def fun_eq_iff)

lemma ref_response_laws: "response_laws ref_boost"
  unfolding response_laws_def
  by (simp add: ref_boost_def ref_field_set ref_set_sels ref_names ref_field_upd)
    (simp add: ref_field_def)

lemma ref_read_laws: "read_laws ref_boost"
  by (simp add: read_laws_def ref_boost_def)

lemma ref_verb_laws: "verb_laws ref_boost"
  by (simp add: verb_laws_def ref_boost_def)

lemmas ref_laws = ref_name_laws ref_response_laws ref_read_laws ref_verb_laws

end
