(* ===== verification/Http_Session_Response.thy ===== *)
theory Http_Session_Response
  imports Http_Session Boost_Reference
begin

section \<open>The response that is written\<close>

text \<open>
  What \<open>HttpSession::writeResponse\<close> puts into the response message and hands to
  \<open>async_write\<close>, from the documented behaviour of Beast's message operations
  (\<open>response_laws\<close>, \<open>name_laws\<close>) and a message object that holds nothing of an earlier
  response (\<open>clean_response\<close>, which \<open>Http_Session_Steps\<close> shows of every reachable session).
\<close>

subsection \<open>The laws as rewrite rules\<close>

lemma response_simps:
  assumes "response_laws B"
  shows "m_keep_alive B (m_set_keep_alive B b m) = b"
    and "m_status B (m_set_keep_alive B b m) = m_status B m"
    and "m_body B (m_set_keep_alive B b m) = m_body B m"
    and "\<not> same_name B ''Connection'' n \<Longrightarrow> m_field B (m_set_keep_alive B b m) n = m_field B m n"
    and "m_keep_alive B (m_result B s m) = m_keep_alive B m"
    and "m_status B (m_result B s m) = s"
    and "m_body B (m_result B s m) = m_body B m"
    and "m_field B (m_result B s m) n = m_field B m n"
    and "\<not> same_name B n ''Connection'' \<Longrightarrow> m_keep_alive B (m_set B n v m) = m_keep_alive B m"
    and "m_status B (m_set B n v m) = m_status B m"
    and "m_body B (m_set B n v m) = m_body B m"
    and "m_field B (m_set B n v m) n' = (if same_name B n n' then Some v else m_field B m n')"
    and "m_keep_alive B (m_write_body B x m) = m_keep_alive B m"
    and "m_status B (m_write_body B x m) = m_status B m"
    and "m_body B (m_write_body B x m) = m_body B m @ x"
    and "m_field B (m_write_body B x m) n = m_field B m n"
    and "m_keep_alive B (m_prepare_payload B m) = m_keep_alive B m"
    and "m_status B (m_prepare_payload B m) = m_status B m"
    and "m_body B (m_prepare_payload B m) = m_body B m"
    and "m_field B (m_prepare_payload B m) ''Content-Length'' =
      Some (decimal B (length (m_body B m)))"
    and "\<not> same_name B ''Content-Length'' n \<Longrightarrow> \<not> same_name B ''Transfer-Encoding'' n \<Longrightarrow>
      m_field B (m_prepare_payload B m) n = m_field B m n"
  using assms unfolding response_laws_def by simp_all

lemma name_sym: "name_laws B \<Longrightarrow> same_name B a b = same_name B b a"
  unfolding name_laws_def by blast

lemma name_simps:
  assumes "name_laws B"
  shows "\<not> same_name B (field_content_type B) ''Connection''"
    and "\<not> same_name B (field_content_encoding B) ''Connection''"
    and "\<not> same_name B (field_content_type B) ''Content-Length''"
    and "\<not> same_name B (field_content_encoding B) ''Content-Length''"
    and "\<not> same_name B ''Connection'' ''Content-Length''"
    and "\<not> same_name B (field_content_type B) (field_content_encoding B)"
  using assms unfolding name_laws_def by simp_all

subsection \<open>The user's headers\<close>

text \<open>The value the headers give to a field: of those with an equal name, the last in the
  map's order.\<close>

definition header_value :: "'m boost \<Rightarrow> (string \<times> string) list \<Rightarrow> string \<Rightarrow> string option" where
  "header_value B hs n = map_option snd (find (\<lambda>(k, _). same_name B k n) (rev hs))"

lemma header_value_Cons:
  "header_value B ((k, v) # hs) n =
     (case header_value B hs n of Some x \<Rightarrow> Some x
      | None \<Rightarrow> if same_name B k n then Some v else None)"
proof -
  have "find P (xs @ [x]) = (case find P xs of Some y \<Rightarrow> Some y | None \<Rightarrow> if P x then Some x else None)"
    for P and x :: "string \<times> string" and xs
    by (induction xs) auto
  then show ?thesis by (auto simp: header_value_def split: option.splits)
qed

definition sets_field :: "'m boost \<Rightarrow> string \<Rightarrow> http_response \<Rightarrow> bool" where
  "sets_field B n rsp \<longleftrightarrow> header_value B (rsp_headers rsp) n \<noteq> None"

lemma put_all_headers:
  assumes laws: "response_laws B"
  shows "m_status B (put_all (m_set B) hs m) = m_status B m"
    and "m_body B (put_all (m_set B) hs m) = m_body B m"
    and "m_field B (put_all (m_set B) hs m) n =
      (case header_value B hs n of Some v \<Rightarrow> Some v | None \<Rightarrow> m_field B m n)"
    and "header_value B hs ''Connection'' = None \<Longrightarrow>
      m_keep_alive B (put_all (m_set B) hs m) = m_keep_alive B m"
proof (induction hs arbitrary: m)
  case Nil
  {
    case 3
    show ?case by (simp add: header_value_def)
  }
qed (auto simp: header_value_Cons response_simps [OF laws] split: option.splits if_splits)

subsection \<open>The message filled in\<close>

text \<open>The body after the compression decision.\<close>

definition wire_body :: "'m boost \<Rightarrow> http_server_options \<Rightarrow> beast_request \<Rightarrow> http_response \<Rightarrow> string" where
  "wire_body B opts req rsp =
     (if use_gzip B opts req rsp
      then compressData B (rsp_compression_level rsp) (rsp_body rsp) else rsp_body rsp)"

text \<open>The message before body and length: header fields and status.\<close>

definition filled_header ::
    "'m boost \<Rightarrow> http_server_options \<Rightarrow> beast_request \<Rightarrow> http_response \<Rightarrow> 'm \<Rightarrow> 'm" where
  "filled_header B opts req rsp m =
     (let m = m_set_keep_alive B (\<not> rsp_force_disable_keep_alive rsp \<and> request_keep_alive B req) m;
          m = m_set B (field_content_type B) (rsp_content_type rsp)
                (m_result B (status_code (rsp_status rsp)) m);
          m = put_all (m_set B) (rsp_headers rsp) m
      in if use_gzip B opts req rsp then m_set B (field_content_encoding B) ''gzip'' m else m)"

lemma fill_response_eq:
  "fill_response B opts req rsp m =
     (if wire_body B opts req rsp = [] then filled_header B opts req rsp m
      else m_prepare_payload B
        (if rq_method req \<noteq> verb_head B
         then m_write_body B (wire_body B opts req rsp) (filled_header B opts req rsp m)
         else filled_header B opts req rsp m))"
  by (simp add: fill_response_def filled_header_def wire_body_def Let_def)

lemma filled_header_props:
  assumes laws: "response_laws B" and names: "name_laws B" and clean: "clean_response B m"
  shows "m_status B (filled_header B opts req rsp m) = status_code (rsp_status rsp)"
    and "m_body B (filled_header B opts req rsp m) = []"
    and "\<not> sets_field B ''Connection'' rsp \<Longrightarrow>
      m_keep_alive B (filled_header B opts req rsp m) =
        (\<not> rsp_force_disable_keep_alive rsp \<and> request_keep_alive B req)"
    and "\<not> same_name B ''Connection'' n \<Longrightarrow>
      m_field B (filled_header B opts req rsp m) n =
        (if use_gzip B opts req rsp \<and> same_name B (field_content_encoding B) n then Some ''gzip''
         else case header_value B (rsp_headers rsp) n of Some v \<Rightarrow> Some v
           | None \<Rightarrow> if same_name B (field_content_type B) n then Some (rsp_content_type rsp) else None)"
  using clean name_simps [OF names]
  by (auto simp: filled_header_def Let_def clean_response_def sets_field_def
      response_simps [OF laws] put_all_headers [OF laws] split: option.splits)

lemma writeResponse_spec:
  assumes laws: "response_laws B" and names: "name_laws B"
    and clean: "clean_response B (ses_response (sw_session w))"
    and req: "req = ses_request (sw_session w)"
    and m: "m = ses_response (sw_session (writeResponse B opts rsp w))"
  shows "ses_pending (sw_session (writeResponse B opts rsp w)) =
      ses_pending (sw_session w) @ [Async_Write m (m_keep_alive B m)]
    \<and> m_status B m = status_code (rsp_status rsp)
    \<and> m_body B m = (if rq_method req = verb_head B then [] else wire_body B opts req rsp)
    \<and> (\<not> sets_field B ''Connection'' rsp \<longrightarrow>
        m_keep_alive B m = (\<not> rsp_force_disable_keep_alive rsp \<and> request_keep_alive B req))
    \<and> (\<forall>n. \<not> same_name B ''Connection'' n \<longrightarrow> \<not> same_name B ''Content-Length'' n \<longrightarrow>
        \<not> same_name B ''Transfer-Encoding'' n \<longrightarrow>
        m_field B m n =
          (if use_gzip B opts req rsp \<and> same_name B (field_content_encoding B) n then Some ''gzip''
           else case header_value B (rsp_headers rsp) n of Some v \<Rightarrow> Some v
             | None \<Rightarrow> if same_name B (field_content_type B) n then Some (rsp_content_type rsp) else None))
    \<and> (wire_body B opts req rsp \<noteq> [] \<longrightarrow>
        m_field B m ''Content-Length'' = Some (decimal B (length (m_body B m))))"
proof -
  have m': "m = fill_response B opts req rsp (ses_response (sw_session w))"
    by (simp add: m req writeResponse_def doWrite_def)
  have "ses_pending (sw_session (writeResponse B opts rsp w)) =
      ses_pending (sw_session w) @ [Async_Write m (m_keep_alive B m)]"
    by (simp add: m' req writeResponse_def doWrite_def)
  moreover have "m_status B m = status_code (rsp_status rsp)"
    and "m_body B m = (if rq_method req = verb_head B then [] else wire_body B opts req rsp)"
    and "wire_body B opts req rsp \<noteq> [] \<Longrightarrow>
        m_field B m ''Content-Length'' = Some (decimal B (length (m_body B m)))"
    by (simp_all add: m' fill_response_eq response_simps [OF laws]
        filled_header_props [OF laws names clean])
  moreover have "m_keep_alive B m = (\<not> rsp_force_disable_keep_alive rsp \<and> request_keep_alive B req)"
    if "\<not> sets_field B ''Connection'' rsp"
    using that by (simp add: m' fill_response_eq response_simps [OF laws]
        filled_header_props [OF laws names clean])
  moreover have "m_field B m n =
      (if use_gzip B opts req rsp \<and> same_name B (field_content_encoding B) n then Some ''gzip''
       else case header_value B (rsp_headers rsp) n of Some v \<Rightarrow> Some v
         | None \<Rightarrow> if same_name B (field_content_type B) n then Some (rsp_content_type rsp) else None)"
    if "\<not> same_name B ''Connection'' n" "\<not> same_name B ''Content-Length'' n"
      "\<not> same_name B ''Transfer-Encoding'' n" for n
    using that by (simp add: m' fill_response_eq response_simps [OF laws]
        filled_header_props [OF laws names clean])
  ultimately show ?thesis by blast
qed

text \<open>
  C8. \<open>writeResponse\<close> on a message object that holds nothing of an earlier response starts one
  write, of a message with: the status of the response; the (possibly compressed) body, and
  none for a HEAD request; keep-alive as the request asks unless the response or one of its
  headers forbids it; Content-Encoding gzip when compressed, else every user header, else
  the content type; and, when the body is not empty, the length of what is sent.
\<close>

theorem writeResponse_message:
  assumes laws: "response_laws B" and names: "name_laws B"
    and clean: "clean_response B (ses_response (sw_session w))"
    and req: "req = ses_request (sw_session w)"
    and m: "m = ses_response (sw_session (writeResponse B opts rsp w))"
  shows "ses_pending (sw_session (writeResponse B opts rsp w)) =
      ses_pending (sw_session w) @ [Async_Write m (m_keep_alive B m)]
    \<and> m_status B m = status_code (rsp_status rsp)
    \<and> m_body B m = (if rq_method req = verb_head B then [] else wire_body B opts req rsp)
    \<and> (\<not> sets_field B ''Connection'' rsp \<longrightarrow>
        m_keep_alive B m = (\<not> rsp_force_disable_keep_alive rsp \<and> request_keep_alive B req))
    \<and> (\<forall>n. \<not> same_name B ''Connection'' n \<longrightarrow> \<not> same_name B ''Content-Length'' n \<longrightarrow>
        \<not> same_name B ''Transfer-Encoding'' n \<longrightarrow>
        m_field B m n =
          (if use_gzip B opts req rsp \<and> same_name B (field_content_encoding B) n then Some ''gzip''
           else case header_value B (rsp_headers rsp) n of Some v \<Rightarrow> Some v
             | None \<Rightarrow> if same_name B (field_content_type B) n then Some (rsp_content_type rsp) else None))
    \<and> (wire_body B opts req rsp \<noteq> [] \<longrightarrow>
        m_field B m ''Content-Length'' = Some (decimal B (length (m_body B m))))"
  using writeResponse_spec [OF assms] .

text \<open>The session of the witnesses: just constructed, with a request read in.\<close>

definition demo_world :: "beast_request \<Rightarrow> ref_message session_world" where
  "demo_world req = upd_session (\<lambda>s. s\<lparr>ses_request := req\<rparr>)
     (new_HttpSession ref_boost default_options 1 zero_statistics)"

definition demo_request :: beast_request where
  "demo_request = \<lparr>rq_method = 2, rq_target = ''/hello?param=data'', rq_version = 11,
     rq_fields = [(''Host'', ''localhost''), (''Accept-Encoding'', ''GZip'')], rq_body = []\<rparr>"

lemma demo_world_sels:
  "ses_request (sw_session (demo_world req)) = req"
  "ses_response (sw_session (demo_world req)) = m_new ref_boost"
  "ses_pending (sw_session (demo_world req)) = []"
  by (simp_all add: demo_world_def new_HttpSession_def)

lemma demo_clean: "clean_response ref_boost (ses_response (sw_session (demo_world req)))"
  by (simp add: demo_world_sels clean_new ref_response_laws)

lemma demo_not_head: "rq_method demo_request \<noteq> verb_head ref_boost"
  by (simp add: demo_request_def ref_boost_def)

theorem writeResponse_message_witness:
  "let w' = writeResponse ref_boost default_options
              (header ''X-Id'' ''7'' (new_HttpResponse OK ''hi'' ''text/plain'')) (demo_world demo_request);
       m = ses_response (sw_session w')
   in ses_pending (sw_session w') = [Async_Write m (m_keep_alive ref_boost m)]
      \<and> m_status ref_boost m = 200 \<and> m_body ref_boost m = ''hi''"
proof -
  note t = writeResponse_message [where w = "demo_world demo_request" and opts = default_options
      and rsp = "header ''X-Id'' ''7'' (new_HttpResponse OK ''hi'' ''text/plain'')",
      OF ref_response_laws ref_name_laws demo_clean refl refl]
  have "wire_body ref_boost default_options demo_request
      (header ''X-Id'' ''7'' (new_HttpResponse OK ''hi'' ''text/plain'')) = ''hi''"
    by (simp add: wire_body_def use_gzip_def header_def new_HttpResponse_def)
  with t show ?thesis
    by (simp add: demo_world_sels demo_not_head Let_def)
      (simp add: header_def new_HttpResponse_def)
qed

subsection \<open>Compression\<close>

text \<open>
  C9. The body negotiated and sent. Of a response to a request other than HEAD, written with a
  message object that holds nothing of an earlier one, the message handed to \<open>async_write\<close> is
  compressed exactly when the response forces it, or its body is longer than 500 bytes,
  compression is enabled and the request's Accept-Encoding contains gzip or an asterisk. Then the
  body sent is the handler's, compressed at the level the response asks for, and
  Content-Encoding is gzip; otherwise the body is sent as it is, and Content-Encoding is what
  the handler's headers set, if anything. A client that decompresses when Content-Encoding is
  gzip, by an inverse of the compressor, gets the handler's body back, whatever was negotiated,
  if the handler does not set that field itself.
\<close>

theorem body_roundtrip:
  assumes laws: "response_laws B" and names: "name_laws B"
    and clean: "clean_response B (ses_response (sw_session w))"
    and req: "req = ses_request (sw_session w)" and not_head: "rq_method req \<noteq> verb_head B"
    and w': "w' = writeResponse B opts rsp w"
    and gzip: "gzip \<longleftrightarrow> rsp_force_gzip rsp
      \<or> 500 < length (rsp_body rsp) \<and> opt_auto_gzip opts
        \<and> (icontains B (request_at B req (field_accept_encoding B)) ''gzip''
           \<or> icontains B (request_at B req (field_accept_encoding B)) ''*'')"
    and inverse: "\<And>level s. decompress (gzip_compress B level s) = s"
  shows "\<exists>m. last (ses_pending (sw_session w')) = Async_Write m (m_keep_alive B m)
    \<and> m_body B m = (if gzip then gzip_compress B (compression_level_int (rsp_compression_level rsp)) (rsp_body rsp)
                    else rsp_body rsp)
    \<and> m_field B m (field_content_encoding B) =
        (if gzip then Some ''gzip'' else header_value B (rsp_headers rsp) (field_content_encoding B))
    \<and> (\<not> sets_field B (field_content_encoding B) rsp \<longrightarrow>
         (if m_field B m (field_content_encoding B) = Some ''gzip'' then decompress (m_body B m)
          else m_body B m) = rsp_body rsp)"
proof -
  let ?m = "ses_response (sw_session w')" and ?e = "field_content_encoding B"
  have use: "use_gzip B opts req rsp = gzip" by (simp add: use_gzip_def gzip)
  note spec = writeResponse_spec [OF laws names clean req refl, of opts rsp, folded w', unfolded use]
  have "\<not> same_name B ''Connection'' ?e" "\<not> same_name B ''Content-Length'' ?e"
    "\<not> same_name B ''Transfer-Encoding'' ?e" "same_name B ?e ?e"
    using names name_sym [OF names] by (simp_all add: name_laws_def)
  then have "m_field B ?m ?e = (if gzip then Some ''gzip'' else header_value B (rsp_headers rsp) ?e)"
    using spec name_simps(6) [OF names] by (auto split: option.splits)
  with spec show ?thesis
    by (intro exI [where x = ?m])
      (simp add: not_head wire_body_def use compressData_def inverse sets_field_def)
qed

text \<open>The witness: 600 bytes for a request that accepts \<open>GZip\<close>, compressed and read back.\<close>

theorem body_roundtrip_witness:
  "\<exists>m. last (ses_pending (sw_session (writeResponse ref_boost default_options
          (new_HttpResponse OK (replicate 600 CHR ''x'') ''t'') (demo_world demo_request))))
       = Async_Write m (m_keep_alive ref_boost m)
     \<and> m_field ref_boost m (field_content_encoding ref_boost) = Some ''gzip''
     \<and> tl (m_body ref_boost m) = replicate 600 CHR ''x''"
proof -
  let ?rsp = "new_HttpResponse OK (replicate 600 CHR ''x'') ''t''"
  have inverse: "tl (gzip_compress ref_boost level s) = s" for level s by (simp add: ref_boost_def)
  have "rsp_body ?rsp = replicate 600 CHR ''x''" "\<not> sets_field ref_boost n ?rsp" for n
    by (simp_all add: new_HttpResponse_def sets_field_def header_value_def)
  moreover have "opt_auto_gzip default_options" by (simp add: default_options_def)
  moreover have "icontains ref_boost (request_at ref_boost demo_request (field_accept_encoding ref_boost)) ''gzip''"
    by code_simp
  ultimately show ?thesis
    using body_roundtrip [where w = "demo_world demo_request" and opts = default_options and rsp = ?rsp
        and decompress = tl, OF ref_response_laws ref_name_laws demo_clean _ _ refl refl inverse]
    by (simp add: demo_world_sels demo_not_head) metis
qed

subsection \<open>Two responses a client cannot delimit or trust\<close>

text \<open>
  A response with an empty body is written without a Content-Length field even when the
  connection is kept alive (unless the handler adds one itself): the code prepares the
  payload fields only for a non-empty body. A client of a persistent connection then has
  no end of the message to find until the server closes the connection.
\<close>

theorem empty_body_without_length:
  assumes "response_laws B" and "name_laws B"
    and "clean_response B (ses_response (sw_session w))"
    and "wire_body B opts (ses_request (sw_session w)) rsp = []"
    and "\<not> sets_field B ''Connection'' rsp" and "\<not> sets_field B ''Content-Length'' rsp"
    and "\<not> rsp_force_disable_keep_alive rsp"
    and "request_keep_alive B (ses_request (sw_session w))"
    and m: "m = ses_response (sw_session (writeResponse B opts rsp w))"
  shows "ses_pending (sw_session (writeResponse B opts rsp w)) =
      ses_pending (sw_session w) @ [Async_Write m True] \<and> m_field B m ''Content-Length'' = None"
proof -
  have m': "m = filled_header B opts (ses_request (sw_session w)) rsp (ses_response (sw_session w))"
    using assms(4) by (simp add: m writeResponse_def doWrite_def fill_response_eq)
  from writeResponse_spec [OF assms(1-3) refl m] assms(5,7,8)
  have "ses_pending (sw_session (writeResponse B opts rsp w)) =
      ses_pending (sw_session w) @ [Async_Write m True]" by simp
  moreover have "m_field B m ''Content-Length'' = None"
    using filled_header_props(4) [OF assms(1-3), of "''Content-Length''"] assms(6)
      name_simps [OF assms(2)]
    by (simp add: m' sets_field_def)
  ultimately show ?thesis by blast
qed

theorem empty_body_without_length_witness:
  "let w' = writeResponse ref_boost default_options (new_HttpResponse OK [] ''text/plain'')
              (demo_world demo_request);
       m = ses_response (sw_session w')
   in ses_pending (sw_session w') = [Async_Write m True] \<and> m_field ref_boost m ''Content-Length'' = None"
proof -
  have "wire_body ref_boost default_options demo_request (new_HttpResponse OK [] ''text/plain'') = []"
    and "\<not> sets_field ref_boost n (new_HttpResponse OK [] ''text/plain'')" for n
    by (simp_all add: wire_body_def use_gzip_def new_HttpResponse_def sets_field_def header_value_def)
  moreover have "request_keep_alive ref_boost demo_request"
    by (simp add: ref_boost_def demo_request_def ref_same_name_def lower_def)
  ultimately show ?thesis
    using empty_body_without_length [where w = "demo_world demo_request"
        and rsp = "new_HttpResponse OK [] ''text/plain''" and opts = default_options,
        OF ref_response_laws ref_name_laws demo_clean _ _ _ _ _ refl]
    by (simp add: demo_world_sels Let_def) (simp add: new_HttpResponse_def)
qed

text \<open>
  The answer to a HEAD request whose handler produces a body carries the Content-Length of
  the empty payload, not of the body a GET request would get: the payload fields are
  prepared from the message body, which is left empty for HEAD.
\<close>

theorem head_length_is_zero:
  assumes "response_laws B" and "name_laws B"
    and "clean_response B (ses_response (sw_session w))"
    and "rq_method (ses_request (sw_session w)) = verb_head B"
    and "wire_body B opts (ses_request (sw_session w)) rsp \<noteq> []"
    and m: "m = ses_response (sw_session (writeResponse B opts rsp w))"
  shows "m_body B m = [] \<and> m_field B m ''Content-Length'' = Some (decimal B 0)"
  using writeResponse_spec [OF assms(1-3) refl m] assms(4,5) by simp

theorem head_length_is_zero_witness:
  "let m = ses_response (sw_session (writeResponse ref_boost default_options
              (new_HttpResponse OK ''body'' ''text/plain'') (demo_world (demo_request\<lparr>rq_method := 3\<rparr>))))
   in m_body ref_boost m = [] \<and> m_field ref_boost m ''Content-Length'' = Some (decimal ref_boost 0)"
proof -
  have "wire_body ref_boost default_options (demo_request\<lparr>rq_method := 3\<rparr>)
      (new_HttpResponse OK ''body'' ''text/plain'') \<noteq> []"
    by (simp add: wire_body_def use_gzip_def new_HttpResponse_def)
  moreover have "rq_method (demo_request\<lparr>rq_method := 3\<rparr>) = verb_head ref_boost"
    by (simp add: ref_boost_def)
  ultimately show ?thesis
    using head_length_is_zero [where w = "demo_world (demo_request\<lparr>rq_method := 3\<rparr>)"
        and rsp = "new_HttpResponse OK ''body'' ''text/plain''" and opts = default_options,
        OF ref_response_laws ref_name_laws demo_clean _ _ refl]
    by (simp add: demo_world_sels Let_def)
qed

end
