(* ===== verification/Http_Session_Steps.thy ===== *)
theory Http_Session_Steps
  imports Http_Session_Response Http_Router_Refine
begin

section \<open>Handling requests and the life of a session\<close>

text \<open>
  First what one call of \<open>processRequest\<close> does on each of its branches; then the session as
  a state machine: the completion of an outstanding operation, or a handler that answers
  late through a kept writer, is a step. The invariant says that a session never has more
  than one operation outstanding, and that nothing of an answered request is left when the
  next one is read. It holds for handlers that answer at most once per request.
\<close>

subsection \<open>Frame properties\<close>

lemma writeResponse_frame [simp]:
  "sw_stats (writeResponse B opts rsp w) = sw_stats w"
  "ses_request (sw_session (writeResponse B opts rsp w)) = ses_request (sw_session w)"
  "ses_open (sw_session (writeResponse B opts rsp w)) = ses_open (sw_session w)"
  "ses_writers (sw_session (writeResponse B opts rsp w)) = ses_writers (sw_session w)"
  "ses_id (sw_session (writeResponse B opts rsp w)) = ses_id (sw_session w)"
  "ses_current_request_id (sw_session (writeResponse B opts rsp w)) =
     ses_current_request_id (sw_session w)"
  by (simp_all add: writeResponse_def doWrite_def)

lemma writeResponse_expiry:
  "ses_expiry (sw_session (writeResponse B opts rsp w)) =
     (if opt_write_time_out opts \<noteq> 0 then Expires_After (opt_write_time_out opts) else Expires_Never)"
  by (simp add: writeResponse_def doWrite_def)

lemma writeResponse_pending:
  "ses_pending (sw_session (writeResponse B opts rsp w)) =
     (let m = ses_response (sw_session (writeResponse B opts rsp w))
      in ses_pending (sw_session w) @ [Async_Write m (m_keep_alive B m)])"
  by (simp add: writeResponse_def doWrite_def Let_def)

lemma send_all_frame [simp]:
  "sw_stats (send_all B opts rsps w) = sw_stats w"
  "ses_request (sw_session (send_all B opts rsps w)) = ses_request (sw_session w)"
  "ses_open (sw_session (send_all B opts rsps w)) = ses_open (sw_session w)"
  "ses_writers (sw_session (send_all B opts rsps w)) = ses_writers (sw_session w)"
  "ses_id (sw_session (send_all B opts rsps w)) = ses_id (sw_session w)"
  "ses_current_request_id (sw_session (send_all B opts rsps w)) =
     ses_current_request_id (sw_session w)"
  by (induction rsps arbitrary: w) simp_all

lemma doClose_sels [simp]:
  "sw_stats (doClose w) = sw_stats w"
  "ses_pending (sw_session (doClose w)) = ses_pending (sw_session w)"
  "ses_writers (sw_session (doClose w)) = ses_writers (sw_session w)"
  "ses_id (sw_session (doClose w)) = ses_id (sw_session w)"
  "\<not> ses_open (sw_session (doClose w))"
  by (simp_all add: doClose_def)

subsection \<open>One request\<close>

lemma processRequest_cases:
  assumes wf: "router_wf router" and req: "req = ses_request (sw_session w)"
  shows "\<exists>w'. processRequest B opts router handle now w = Some w'
    \<and> w' = (case parse_target B req of
          Inl e \<Rightarrow> refuse B opts ''url invalid'' w
        | Inr url \<Rightarrow>
            (case route_search (url_segments url) (table_of router) of
               None \<Rightarrow> refuse B opts ''current url not support'' w
             | Some h \<Rightarrow>
                 if rq_method req > verb_put B
                 then refuse B opts ''current method not support'' w
                 else dispatch_request B opts (handle h) now url w))
    \<and> sw_stats w' = (sw_stats w)\<lparr>handle_request_cnt := handle_request_cnt (sw_stats w) + 1\<rparr>
    \<and> rq_body (ses_request (sw_session w')) = []
    \<and> ses_open (sw_session w') = ses_open (sw_session w)"
proof -
  have refused: "sw_stats (refuse B opts reason w) =
        (sw_stats w)\<lparr>handle_request_cnt := handle_request_cnt (sw_stats w) + 1\<rparr>
      \<and> rq_body (ses_request (sw_session (refuse B opts reason w))) = []
      \<and> ses_open (sw_session (refuse B opts reason w)) = ses_open (sw_session w)" for reason
    by (simp add: session_simps)
  have dispatched: "sw_stats (dispatch_request B opts hr now url w) =
        (sw_stats w)\<lparr>handle_request_cnt := handle_request_cnt (sw_stats w) + 1\<rparr>
      \<and> rq_body (ses_request (sw_session (dispatch_request B opts hr now url w))) = []
      \<and> ses_open (sw_session (dispatch_request B opts hr now url w)) = ses_open (sw_session w)"
    for hr url
    by (cases "sw_stats w")
      (simp add: dispatch_request_def Let_def session_simps)
  show ?thesis
    using refused dispatched tree.lookup_ok [OF wf]
    by (simp add: processRequest_def req split: sum.split option.split)
qed

text \<open>
  C12. \<open>processRequest\<close> with a well-formed router never follows a bad pointer and has one of four
  outcomes, in this order: a target that does not parse, a path without handler and a
  method after PUT are refused with status 400 and their own text; otherwise the handler
  the routing table gives for the path's segments is run on the request built from the
  message. Every outcome counts one handled request, changes no other counter, and leaves
  the request body empty.
\<close>

theorem processRequest_outcomes:
  assumes wf: "router_wf router" and req: "req = ses_request (sw_session w)"
  shows "\<exists>w'. processRequest B opts router handle now w = Some w'
    \<and> w' = (case parse_target B req of
          Inl e \<Rightarrow> refuse B opts ''url invalid'' w
        | Inr url \<Rightarrow>
            (case route_search (url_segments url) (table_of router) of
               None \<Rightarrow> refuse B opts ''current url not support'' w
             | Some h \<Rightarrow>
                 if rq_method req > verb_put B
                 then refuse B opts ''current method not support'' w
                 else dispatch_request B opts (handle h) now url w))
    \<and> sw_stats w' = (sw_stats w)\<lparr>handle_request_cnt := handle_request_cnt (sw_stats w) + 1\<rparr>
    \<and> rq_body (ses_request (sw_session w')) = []
    \<and> ses_open (sw_session w') = ses_open (sw_session w)"
  using processRequest_cases [OF assms] .

lemma demo_url:
  "parse_target ref_boost demo_request =
     Inr \<lparr>url_segments = [''hello''], url_params = [(''param'', ''data'')],
          url_encoded_params = [(''param'', ''data'')]\<rparr>"
  by (simp add: parse_target_def demo_request_def ref_boost_def ref_parse_def ref_segments_def
      str_has_def key_value_def Let_def)

theorem processRequest_outcomes_witness:
  "\<exists>w'. processRequest ref_boost default_options (new_HttpRouter :: nat http_router)
          (\<lambda>h r. \<lparr>sent_now = [], kept_writer = False\<rparr>) 0 (demo_world demo_request) = Some w'
    \<and> w' = refuse ref_boost default_options ''current url not support'' (demo_world demo_request)
    \<and> handle_request_cnt (sw_stats w') = 1"
proof -
  have "route_search [''hello''] (table_of (new_HttpRouter :: nat http_router)) = None"
    by (simp add: table_of_new route_search_def route_empty_def longest_node_def)
  moreover have "handle_request_cnt (sw_stats (demo_world demo_request)) = 0"
    by (simp add: demo_world_def new_HttpSession_def zero_statistics_def)
  ultimately show ?thesis
    using processRequest_outcomes [where w = "demo_world demo_request" and B = ref_boost
        and opts = default_options and now = 0 and req = demo_request
        and router = "new_HttpRouter :: nat http_router"
        and handle = "\<lambda>h r. \<lparr>sent_now = [], kept_writer = False\<rparr>",
        OF router_wf_new] demo_url
    by (auto simp: demo_world_sels)
qed

text \<open>
  C13. The request object a handler gets: the method it names is one of the six the API knows and
  the one the message has (for Beast's numbering of verbs); session and request numbers are
  the session's; the segments and the body are the message's; for every header and
  parameter name the value is the last one of that name, parameters decoded or not as
  configured, and both maps are sorted.
\<close>

theorem handler_request:
  assumes verbs: "verb_laws B" and "\<not> rq_method (ses_request s) > verb_put B"
    and r: "r = build_request opts now s url"
  shows "req_method r = Some ([Unknown, Delete, GET, HEAD, POST, PUT] ! rq_method (ses_request s))
    \<and> rq_method (ses_request s) < 6
    \<and> (req_method r = Some GET \<longleftrightarrow> rq_method (ses_request s) = verb_get B)
    \<and> (req_method r = Some HEAD \<longleftrightarrow> rq_method (ses_request s) = verb_head B)
    \<and> req_session_id r = ses_id s \<and> req_request_id r = ses_current_request_id s
    \<and> req_segments r = url_segments url \<and> req_body r = rq_body (ses_request s)
    \<and> (\<forall>k. std_map_find (req_headers r) k = map_of (rev (rq_fields (ses_request s))) k)
    \<and> (\<forall>k. std_map_find (req_params r) k =
         map_of (rev (if opt_auto_decode_url_parameters opts then url_params url
                      else url_encoded_params url)) k)
    \<and> std_map_invar (req_headers r) \<and> std_map_invar (req_params r)"
proof -
  have m: "rq_method (ses_request s) \<in> {0, 1, 2, 3, 4, 5}"
    using assms(1,2) by (auto simp: verb_laws_def)
  then have "method_cast (rq_method (ses_request s)) =
      [Unknown, Delete, GET, HEAD, POST, PUT] ! rq_method (ses_request s)"
    and "method_cast (rq_method (ses_request s)) = GET \<longleftrightarrow> rq_method (ses_request s) = verb_get B"
    and "method_cast (rq_method (ses_request s)) = HEAD \<longleftrightarrow> rq_method (ses_request s) = verb_head B"
    using verbs by (auto simp: method_cast_def verb_laws_def)
  with m show ?thesis
    by (auto simp: r build_request_def new_HttpRequest_def Let_def std_map.find_put_all_empty
        std_map.invar_put_all std_map.invar_empty)
qed

theorem handler_request_witness:
  "std_map_find (req_headers (build_request default_options 0
      (sw_session (demo_world (demo_request\<lparr>rq_fields := [(''A'', ''1''), (''A'', ''2'')]\<rparr>)))
      \<lparr>url_segments = [''hello''], url_params = [], url_encoded_params = []\<rparr>)) ''A'' = Some ''2''"
proof -
  have "\<not> rq_method (ses_request (sw_session
      (demo_world (demo_request\<lparr>rq_fields := [(''A'', ''1''), (''A'', ''2'')]\<rparr>)))) > verb_put ref_boost"
    by (simp add: demo_world_sels demo_request_def ref_boost_def)
  from handler_request [OF ref_verb_laws this refl, of default_options 0
      "\<lparr>url_segments = [''hello''], url_params = [], url_encoded_params = []\<rparr>"]
  show ?thesis by (simp add: demo_world_sels)
qed

subsection \<open>The session as a state machine\<close>

text \<open>
  What Beast has done when it calls the completion handler: the operation is no longer
  outstanding; a successful read has stored its message in the session's message object, a
  failed one has left something arbitrary there; and when the timer has expired, the stream has
  closed the socket before it reports \<open>error::timeout\<close>, so \<open>is_open()\<close> is false from then on.
\<close>

definition socket_after :: "error_code \<Rightarrow> 'm http_session \<Rightarrow> bool" where
  "socket_after ec s \<longleftrightarrow> ses_open s \<and> ec \<noteq> Timeout"

definition read_world :: "'m boost \<Rightarrow> error_code \<Rightarrow> beast_request \<Rightarrow> 'm session_world \<Rightarrow> 'm session_world" where
  "read_world B ec msg w = upd_session (\<lambda>s. s\<lparr>ses_pending := remove1 Async_Read (ses_pending s),
     ses_request := (if ec = Success then read_into B (ses_request s) msg else msg),
     ses_open := socket_after ec s\<rparr>) w"

definition write_world :: "error_code \<Rightarrow> 'm io_op \<Rightarrow> 'm session_world \<Rightarrow> 'm session_world" where
  "write_world ec op w = upd_session (\<lambda>s. s\<lparr>ses_pending := remove1 op (ses_pending s),
     ses_open := socket_after ec s\<rparr>) w"

text \<open>The completion of an operation: what Beast has done, then the handler.\<close>

fun complete_op ::
    "'m boost \<Rightarrow> http_server_options \<Rightarrow> 'h http_router \<Rightarrow> ('h \<Rightarrow> http_request \<Rightarrow> handle_outcome)
       \<Rightarrow> int \<Rightarrow> error_code \<Rightarrow> beast_request \<Rightarrow> 'm io_op \<Rightarrow> 'm session_world \<Rightarrow> 'm session_world option" where
  "complete_op B opts router handle now ec msg Async_Read w =
     onRead B opts router handle now ec (read_world B ec msg w)"
| "complete_op B opts router handle now ec msg (Async_Write m keep_alive) w =
     Some (onWrite B opts keep_alive ec (write_world ec (Async_Write m keep_alive) w))"

lemma read_world_sels [simp]:
  "sw_stats (read_world B ec msg w) = sw_stats w"
  "ses_id (sw_session (read_world B ec msg w)) = ses_id (sw_session w)"
  "ses_current_request_id (sw_session (read_world B ec msg w)) = ses_current_request_id (sw_session w)"
  "ses_open (sw_session (read_world B ec msg w)) = socket_after ec (sw_session w)"
  "ses_expiry (sw_session (read_world B ec msg w)) = ses_expiry (sw_session w)"
  "ses_response (sw_session (read_world B ec msg w)) = ses_response (sw_session w)"
  "ses_writers (sw_session (read_world B ec msg w)) = ses_writers (sw_session w)"
  "ses_pending (sw_session (read_world B ec msg w)) = remove1 Async_Read (ses_pending (sw_session w))"
  "ses_request (sw_session (read_world B ec msg w)) =
     (if ec = Success then read_into B (ses_request (sw_session w)) msg else msg)"
  by (simp_all add: read_world_def)

lemma write_world_sels [simp]:
  "sw_stats (write_world ec op w) = sw_stats w"
  "ses_id (sw_session (write_world ec op w)) = ses_id (sw_session w)"
  "ses_current_request_id (sw_session (write_world ec op w)) = ses_current_request_id (sw_session w)"
  "ses_open (sw_session (write_world ec op w)) = socket_after ec (sw_session w)"
  "ses_expiry (sw_session (write_world ec op w)) = ses_expiry (sw_session w)"
  "ses_response (sw_session (write_world ec op w)) = ses_response (sw_session w)"
  "ses_request (sw_session (write_world ec op w)) = ses_request (sw_session w)"
  "ses_writers (sw_session (write_world ec op w)) = ses_writers (sw_session w)"
  "ses_pending (sw_session (write_world ec op w)) = remove1 op (ses_pending (sw_session w))"
  by (simp_all add: write_world_def)

lemma socket_after_simps [simp]:
  "socket_after Success s = ses_open s" "socket_after Timeout s = False"
  "ec \<noteq> Timeout \<Longrightarrow> socket_after ec s = ses_open s"
  by (simp_all add: socket_after_def)

text \<open>
  The steps: an outstanding read completes with some result and \<open>onRead\<close> runs; an outstanding
  write completes and \<open>onWrite\<close> runs; a handler that kept its writer sends the response and
  gives the writer up; or it drops the writer without answering.
\<close>

inductive session_step ::
    "'m boost \<Rightarrow> http_server_options \<Rightarrow> 'h http_router \<Rightarrow> ('h \<Rightarrow> http_request \<Rightarrow> handle_outcome)
       \<Rightarrow> 'm session_world \<Rightarrow> 'm session_world \<Rightarrow> bool"
  for B :: "'m boost" and opts :: http_server_options and router :: "'h http_router"
    and handle :: "'h \<Rightarrow> http_request \<Rightarrow> handle_outcome" where
  read_completed:
    "Async_Read \<in> set (ses_pending (sw_session w)) \<Longrightarrow>
     onRead B opts router handle now ec (read_world B ec msg w) = Some w' \<Longrightarrow>
     session_step B opts router handle w w'"
| write_completed:
    "Async_Write m keep_alive \<in> set (ses_pending (sw_session w)) \<Longrightarrow>
     session_step B opts router handle w
       (onWrite B opts keep_alive ec (write_world ec (Async_Write m keep_alive) w))"
| writer_sends:
    "0 < ses_writers (sw_session w) \<Longrightarrow>
     session_step B opts router handle w
       (writeResponse B opts rsp (upd_session (\<lambda>s. s\<lparr>ses_writers := ses_writers s - 1\<rparr>) w))"
| writer_dropped:
    "0 < ses_writers (sw_session w) \<Longrightarrow>
     session_step B opts router handle w (upd_session (\<lambda>s. s\<lparr>ses_writers := ses_writers s - 1\<rparr>) w)"

definition session_start :: "'m boost \<Rightarrow> http_server_options \<Rightarrow> 'm session_world \<Rightarrow> bool" where
  "session_start B opts w \<longleftrightarrow>
     (\<exists>new_id stats. w = session_run opts (new_HttpSession B opts new_id stats))"

text \<open>The contract of a handler: it answers at most once, now or later.\<close>

definition one_reply :: "('h \<Rightarrow> http_request \<Rightarrow> handle_outcome) \<Rightarrow> bool" where
  "one_reply handle \<longleftrightarrow>
     (\<forall>h r. length (sent_now (handle h r)) + (if kept_writer (handle h r) then 1 else 0) \<le> (1::nat))"

text \<open>Between requests the session holds nothing of the last one.\<close>

definition fresh_session :: "'m boost \<Rightarrow> 'm http_session \<Rightarrow> bool" where
  "fresh_session B s \<longleftrightarrow> ses_open s \<and> rq_body (ses_request s) = [] \<and> clean_response B (ses_response s)"

text \<open>The timer an operation runs under: the configured seconds, none when they are zero.\<close>

definition expiry_of :: "u64 \<Rightarrow> expiry" where
  "expiry_of seconds = (if seconds \<noteq> 0 then Expires_After seconds else Expires_Never)"

definition writing_session :: "'m boost \<Rightarrow> http_server_options \<Rightarrow> 'm http_session \<Rightarrow> bool" where
  "writing_session B opts s \<longleftrightarrow> ses_open s \<and> rq_body (ses_request s) = []
     \<and> ses_expiry s = expiry_of (opt_write_time_out opts)
     \<and> ses_pending s = [Async_Write (ses_response s) (m_keep_alive B (ses_response s))]"

definition session_inv :: "'m boost \<Rightarrow> http_server_options \<Rightarrow> 'm session_world \<Rightarrow> bool" where
  "session_inv B opts w \<longleftrightarrow> (let s = sw_session w in
     (ses_pending s = [] \<and> ses_writers s = 0)
     \<or> (ses_pending s = [] \<and> ses_writers s = 1 \<and> fresh_session B s)
     \<or> (ses_pending s = [Async_Read] \<and> ses_writers s = 0 \<and> fresh_session B s
          \<and> ses_expiry s = expiry_of (opt_read_time_out opts))
     \<or> (ses_writers s = 0 \<and> writing_session B opts s))"

lemma session_inv_start:
  assumes "response_laws B" and "session_start B opts w"
  shows "session_inv B opts w"
  using assms clean_new [OF assms(1)]
  by (auto simp: session_start_def start_simps session_inv_def
      fresh_session_def empty_request_def expiry_of_def)

lemma writing_after_write:
  assumes "fresh_session B (sw_session w)" and "ses_pending (sw_session w) = []"
  shows "writing_session B opts (sw_session (writeResponse B opts rsp w))"
  using assms
  by (auto simp: fresh_session_def writing_session_def writeResponse_pending Let_def
      writeResponse_expiry expiry_of_def)

lemma session_inv_refuse:
  assumes "ses_open (sw_session w)" and "ses_pending (sw_session w) = []"
    and "ses_writers (sw_session w) = 0"
  shows "session_inv B opts (refuse B opts reason w)"
  using assms
  by (simp add: session_inv_def Let_def writing_session_def session_simps writeResponse_pending writeResponse_expiry expiry_of_def)

lemma session_inv_dispatch:
  assumes "one_reply handle"
    and "ses_open (sw_session w)" and "ses_pending (sw_session w) = []"
    and "ses_writers (sw_session w) = 0" and "clean_response B (ses_response (sw_session w))"
  shows "session_inv B opts (dispatch_request B opts (handle h) now url w)"
proof -
  define out where "out = handle h (build_request opts now (sw_session w) url)"
  have "length (sent_now out) + (if kept_writer out then 1 else 0) \<le> (1::nat)"
    using assms(1) by (simp add: one_reply_def out_def)
  then consider (silent) "sent_now out = []" "\<not> kept_writer out"
    | (later) "sent_now out = []" "kept_writer out"
    | (answered) rsp where "sent_now out = [rsp]" "\<not> kept_writer out"
    by (cases "sent_now out") (auto split: if_splits)
  then show ?thesis
    using assms(2-5)
    by cases (simp_all add: dispatch_request_def Let_def out_def [symmetric] run_handler_def
        count_handled_def session_inv_def fresh_session_def writing_session_def
        clear_request_body_def writeResponse_pending writeResponse_expiry expiry_of_def)
qed

lemma session_inv_onRead:
  assumes inv: "session_inv B opts w" and reply: "one_reply handle"
    and pend: "Async_Read \<in> set (ses_pending (sw_session w))"
    and step: "onRead B opts router handle now ec (read_world B ec msg w) = Some w'"
  shows "session_inv B opts w'"
proof -
  have s: "ses_pending (sw_session w) = [Async_Read]" "ses_writers (sw_session w) = 0"
    "ses_open (sw_session w)" "clean_response B (ses_response (sw_session w))"
    using inv pend by (auto simp: session_inv_def Let_def fresh_session_def writing_session_def)
  show ?thesis
  proof (cases "ec = Success")
    case False
    with step s show ?thesis
      by (auto simp: onRead_def session_inv_def Let_def split: if_splits)
  next
    case True
    then show ?thesis
      using step s reply
      by (auto simp: onRead_def processRequest_def split: sum.splits option.splits if_splits
          intro!: session_inv_refuse session_inv_dispatch)
  qed
qed

lemma session_inv_step:
  assumes laws: "response_laws B" and reply: "one_reply handle"
    and inv: "session_inv B opts w" and step: "session_step B opts router handle w w'"
  shows "session_inv B opts w'"
  using step
proof cases
  case (read_completed now ec msg)
  then show ?thesis by (intro session_inv_onRead [OF inv reply])
next
  case (write_completed m ka ec)
  then have "ses_pending (sw_session w) = [Async_Write m ka]" "ses_writers (sw_session w) = 0"
    "ses_open (sw_session w)" "rq_body (ses_request (sw_session w)) = []"
    using inv by (auto simp: session_inv_def Let_def writing_session_def)
  with write_completed show ?thesis
    using clean_cleared [OF laws]
    by (simp add: onWrite_def session_inv_def Let_def doRead_def fresh_session_def expiry_of_def)
next
  case (writer_sends rsp)
  then have "fresh_session B (sw_session w)" "ses_pending (sw_session w) = []"
    "ses_writers (sw_session w) = 1"
    using inv by (auto simp: session_inv_def Let_def)
  with writer_sends show ?thesis
    using writing_after_write [of B "upd_session (\<lambda>s. s\<lparr>ses_writers := 0\<rparr>) w" opts rsp]
    by (simp add: session_inv_def Let_def fresh_session_def)
next
  case writer_dropped
  then show ?thesis using inv by (auto simp: session_inv_def Let_def writing_session_def)
qed

interpretation session: invariant_system "session_start B opts" "session_step B opts router handle"
    "\<lambda>w. response_laws B \<longrightarrow> one_reply handle \<longrightarrow> session_inv B opts w"
  for B :: "'m boost" and opts and router :: "'h http_router" and handle
  by unfold_locales (blast intro: session_inv_start session_inv_step)+

subsection \<open>What the state machine guarantees\<close>

lemma reachable_inv:
  assumes "reach (session_start B opts) (session_step B opts router handle) w"
    and "response_laws B" and "one_reply handle"
  shows "session_inv B opts w"
  using session.reach_inv [OF assms(1)] assms(2,3) by blast

text \<open>
  C14. In every state a session reaches, with handlers that answer at most once, there is at most
  one outstanding operation or unanswered writer, so a read and a write, or two writes,
  are never outstanding together; the operation runs under its own configured timer; a
  write's message is the session's current response; and a closed session has nothing
  outstanding, so it ends.
\<close>

theorem session_one_operation:
  assumes "reach (session_start B opts) (session_step B opts router handle) w"
    and "response_laws B" and "one_reply handle"
  shows "length (ses_pending (sw_session w)) + ses_writers (sw_session w) \<le> 1
    \<and> (\<not> ses_open (sw_session w) \<longrightarrow>
         ses_pending (sw_session w) = [] \<and> ses_writers (sw_session w) = 0)
    \<and> (Async_Read \<in> set (ses_pending (sw_session w)) \<longrightarrow>
         ses_expiry (sw_session w) = expiry_of (opt_read_time_out opts))
    \<and> (\<forall>m ka. Async_Write m ka \<in> set (ses_pending (sw_session w)) \<longrightarrow>
         m = ses_response (sw_session w) \<and> ka = m_keep_alive B m
         \<and> ses_expiry (sw_session w) = expiry_of (opt_write_time_out opts))"
  using reachable_inv [OF assms]
  by (auto simp: session_inv_def Let_def fresh_session_def writing_session_def)

lemma start_reachable:
  "reach (session_start B opts) (session_step B opts router handle)
     (session_run opts (new_HttpSession B opts new_id stats))"
  by (rule reach_start) (auto simp: session_start_def)

abbreviation demo_start :: "ref_message session_world" where
  "demo_start \<equiv> session_run default_options
     (new_HttpSession ref_boost default_options 1 zero_statistics)"

abbreviation silent_handler :: "nat \<Rightarrow> http_request \<Rightarrow> handle_outcome" where
  "silent_handler h r \<equiv> \<lparr>sent_now = [], kept_writer = False\<rparr>"

lemma one_reply_silent: "one_reply silent_handler"
  by (simp add: one_reply_def)

theorem session_one_operation_witness:
  "length (ses_pending (sw_session demo_start)) + ses_writers (sw_session demo_start) \<le> 1
   \<and> ses_expiry (sw_session demo_start) = Expires_After 60"
  using session_one_operation [where B = ref_boost and opts = default_options
      and router = new_HttpRouter, OF start_reachable ref_response_laws one_reply_silent]
  by (simp add: start_simps expiry_of_def default_options_def)

text \<open>
  C15. Requests on one connection are isolated, with handlers that answer at most once (C33 shows
  that they are not otherwise): whenever a read is outstanding, or a handler is still to answer, the
  response object holds no field and no byte of an earlier response;
  and the message a successful read stores is exactly the message received, with no byte of
  an earlier request's body in front of it, given that \<open>async_read\<close> stores the message it receives
  in a message object with an empty body (\<open>read_laws\<close>).
\<close>

theorem session_requests_isolated:
  assumes "reach (session_start B opts) (session_step B opts router handle) w"
    and "response_laws B" and "one_reply handle" and "read_laws B"
    and "Async_Read \<in> set (ses_pending (sw_session w)) \<or> 0 < ses_writers (sw_session w)"
  shows "clean_response B (ses_response (sw_session w))
    \<and> read_into B (ses_request (sw_session w)) msg = msg"
  using reachable_inv [OF assms(1-3)] assms(4,5)
  by (auto simp: session_inv_def Let_def fresh_session_def writing_session_def read_laws_def)

theorem session_requests_isolated_witness:
  "clean_response ref_boost (ses_response (sw_session demo_start))
    \<and> read_into ref_boost (ses_request (sw_session demo_start)) demo_request = demo_request"
  by (rule session_requests_isolated [where router = new_HttpRouter, OF start_reachable
        ref_response_laws one_reply_silent ref_read_laws])
    (simp add: start_simps)

lemma onRead_total:
  assumes "router_wf router"
  shows "\<exists>w'. onRead B opts router handle now ec w = Some w'"
proof (cases "ec = Success")
  case True
  then show ?thesis
    using processRequest_cases [OF assms refl] by (simp add: onRead_def) blast
qed (simp add: onRead_def)

lemma onWrite_closes:
  assumes "ec \<noteq> Success \<or> \<not> ka"
  shows "\<not> ses_open (sw_session (onWrite B opts ka ec w))"
    and "ses_pending (sw_session (onWrite B opts ka ec w)) = ses_pending (sw_session w)"
  using assms by (auto simp: onWrite_def)

text \<open>
  C16. A session with an outstanding operation is never stuck: with a well-formed router the
  completion of the operation, with whatever error code, message and time, runs its handler to
  a next state, which is a step of the session. If the read or the write completed with any
  error, or the written response was without keep-alive, that very completion leaves the
  session closed with nothing outstanding; if a response with keep-alive was written, it
  leaves exactly the next read outstanding, under the next request number.
\<close>

theorem session_progress:
  assumes wf: "router_wf router" and pend: "ses_pending (sw_session w) = [op]"
  shows "\<exists>w'. complete_op B opts router handle now ec msg op w = Some w'
    \<and> session_step B opts router handle w w'
    \<and> (ec \<noteq> Success \<or> (\<exists>m. op = Async_Write m False) \<longrightarrow>
         \<not> ses_open (sw_session w') \<and> ses_pending (sw_session w') = [])
    \<and> (ec = Success \<and> (\<exists>m. op = Async_Write m True) \<longrightarrow>
         ses_open (sw_session w') = ses_open (sw_session w) \<and> ses_pending (sw_session w') = [Async_Read]
         \<and> ses_current_request_id (sw_session w') = ses_current_request_id (sw_session w) + 1)"
proof (cases op)
  case Async_Read
  obtain w' where w': "onRead B opts router handle now ec (read_world B ec msg w) = Some w'"
    using onRead_total [OF wf] by blast
  have "session_step B opts router handle w w'"
    by (rule session_step.read_completed [OF _ w']) (simp add: pend Async_Read)
  moreover have "ec \<noteq> Success \<longrightarrow> \<not> ses_open (sw_session w') \<and> ses_pending (sw_session w') = []"
    using w' pend Async_Read by (auto simp: onRead_def split: if_splits)
  ultimately show ?thesis using w' Async_Read by auto
next
  case (Async_Write m ka)
  then have "Async_Write m ka \<in> set (ses_pending (sw_session w))" using pend by simp
  from session_step.write_completed [OF this, of B opts router handle ec] show ?thesis
    using pend Async_Write by (auto simp: onWrite_closes) (simp_all add: onWrite_def doRead_def)
qed

theorem session_progress_witness:
  "\<exists>w'. complete_op ref_boost default_options (new_HttpRouter :: nat http_router) silent_handler 0 Timeout
          empty_request Async_Read demo_start = Some w'
      \<and> \<not> ses_open (sw_session w') \<and> ses_pending (sw_session w') = []"
proof -
  have "ses_pending (sw_session demo_start) = [Async_Read]"
    by (simp add: start_simps)
  from session_progress [where router = "new_HttpRouter :: nat http_router" and now = 0 and msg = empty_request
      and handle = silent_handler and B = ref_boost and opts = default_options and ec = Timeout,
      OF router_wf_new this]
  show ?thesis by auto
qed

end
