(* ===== verification/Http_Session_Wire.thy ===== *)
theory Http_Session_Wire
  imports Http_Session_Steps
begin

section \<open>The messages a session puts on the wire\<close>

text \<open>
  A typing of the outstanding writes that every step of a session keeps, whatever its
  handlers do.
\<close>

text \<open>
  A message handed to \<open>async_write\<close>: its status is one the API knows, it has a content type,
  and the bound \<open>keep_alive\<close> value is the message's own.
\<close>

definition wire_message :: "'m boost \<Rightarrow> 'm \<Rightarrow> bool \<Rightarrow> bool" where
  "wire_message B m ka \<longleftrightarrow> m_status B m \<in> {200, 400, 500, 503}
     \<and> m_field B m (field_content_type B) \<noteq> None \<and> ka = m_keep_alive B m"

definition wire_inv :: "'m boost \<Rightarrow> 'm session_world \<Rightarrow> bool" where
  "wire_inv B w \<longleftrightarrow> (\<forall>m ka. Async_Write m ka \<in> set (ses_pending (sw_session w)) \<longrightarrow> wire_message B m ka)"

lemma status_code_range: "status_code s \<in> {200, 400, 500, 503}"
  by (cases s) simp_all

lemma fill_response_wire:
  assumes laws: "response_laws B" and names: "name_laws B" and m: "m = fill_response B opts req rsp m0"
  shows "wire_message B m (m_keep_alive B m)"
proof -
  let ?c = "field_content_type B" and ?h = "filled_header B opts req rsp m0"
  have self: "same_name B ?c ?c" using names by (simp add: name_laws_def)
  have "m_field B ?h ?c \<noteq> None" and "m_status B ?h = status_code (rsp_status rsp)"
    using self
    by (auto simp: filled_header_def Let_def response_simps [OF laws] put_all_headers [OF laws]
        split: option.splits)
  moreover have "\<not> same_name B ''Content-Length'' ?c" "\<not> same_name B ''Transfer-Encoding'' ?c"
    using names name_sym [OF names] by (simp_all add: name_laws_def)
  ultimately show ?thesis
    using status_code_range by (simp add: wire_message_def m fill_response_eq response_simps [OF laws])
qed

lemma wire_inv_writeResponse:
  assumes "response_laws B" and "name_laws B" and "wire_inv B w"
  shows "wire_inv B (writeResponse B opts rsp w)"
  using assms fill_response_wire [OF assms(1,2) refl]
  by (auto simp: wire_inv_def writeResponse_def doWrite_def)

lemma wire_inv_send_all:
  assumes "response_laws B" and "name_laws B"
  shows "wire_inv B w \<Longrightarrow> wire_inv B (send_all B opts rsps w)"
  by (induction rsps arbitrary: w) (auto intro: wire_inv_writeResponse [OF assms])

lemma wire_inv_pending:
  "set (ses_pending (sw_session w')) \<subseteq> insert Async_Read (set (ses_pending (sw_session w))) \<Longrightarrow>
     wire_inv B w \<Longrightarrow> wire_inv B w'"
  by (auto simp: wire_inv_def)

lemma wire_inv_eq:
  "ses_pending (sw_session w') = ses_pending (sw_session w) \<Longrightarrow> wire_inv B w' = wire_inv B w"
  by (simp add: wire_inv_def)

lemma wire_inv_processRequest:
  assumes laws: "response_laws B" "name_laws B" and inv: "wire_inv B w"
    and step: "processRequest B opts router handle now w = Some w'"
  shows "wire_inv B w'"
proof -
  have refused: "wire_inv B (refuse B opts reason w)" for reason
    using wire_inv_writeResponse [OF laws, of "count_handled w" opts] inv
      wire_inv_eq [of "count_handled w" w B]
    by (simp add: refuse_def count_handled_def) (simp add: wire_inv_def clear_request_body_def)
  have dispatched: "wire_inv B (dispatch_request B opts hr now url w)" for hr url
  proof -
    let ?w = "upd_stats (\<lambda>t. t\<lparr>working_handler_cnt := working_handler_cnt t + 1\<rparr>)
      (if length (rq_body (ses_request (sw_session w))) > 0 then clear_request_body w else w)"
    let ?rsps = "sent_now (hr (build_request opts now (sw_session w) url))"
    have "wire_inv B ?w" using inv by (simp add: wire_inv_def clear_request_body_def)
    then have "wire_inv B (send_all B opts ?rsps ?w)" by (rule wire_inv_send_all [OF laws])
    then show ?thesis
      by (subst wire_inv_eq) (simp_all add: dispatch_request_def Let_def run_handler_def count_handled_def)
  qed
  show ?thesis
    using step refused dispatched
    by (auto simp: processRequest_def split: sum.splits option.splits if_splits)
qed

lemma wire_inv_step:
  assumes laws: "response_laws B" "name_laws B" and inv: "wire_inv B w"
    and step: "session_step B opts router handle w w'"
  shows "wire_inv B w'"
  using step
proof cases
  case (read_completed now ec msg)
  have "wire_inv B (read_world B ec msg w)"
    using set_remove1_subset by (fastforce intro: wire_inv_pending [OF _ inv])
  with read_completed(2) show ?thesis
    by (auto simp: onRead_def wire_inv_def split: if_splits dest: wire_inv_processRequest [OF laws, rotated])
next
  case (write_completed m ka ec)
  then show ?thesis
    using set_remove1_subset by (fastforce simp: onWrite_def doRead_def intro: wire_inv_pending [OF _ inv])
next
  case (writer_sends rsp)
  then show ?thesis using inv by (auto simp: wire_inv_def intro!: wire_inv_writeResponse [OF laws, unfolded wire_inv_def])
next
  case writer_dropped
  then show ?thesis using inv by (simp add: wire_inv_def)
qed

interpretation wire: invariant_system "session_start B opts" "session_step B opts router handle"
    "\<lambda>w. response_laws B \<longrightarrow> name_laws B \<longrightarrow> wire_inv B w"
  for B :: "'m boost" and opts and router :: "'h http_router" and handle
proof
  show "session_start B opts w \<Longrightarrow> response_laws B \<longrightarrow> name_laws B \<longrightarrow> wire_inv B w" for w
    by (auto simp: session_start_def start_simps wire_inv_def)
qed (blast intro: wire_inv_step)

text \<open>
  C38. Every message a session hands to \<open>async_write\<close>, in any state it reaches and whatever its
  handlers send, how often and when: the status is one of the four the API names, there
  is a content type, and the keep-alive value the completion handler will act on is the one
  the message announces.
\<close>

theorem wire_messages_wellformed:
  assumes "reach (session_start B opts) (session_step B opts router handle) w"
    and "response_laws B" and "name_laws B"
    and "Async_Write m ka \<in> set (ses_pending (sw_session w))"
  shows "m_status B m \<in> {200, 400, 500, 503} \<and> m_field B m (field_content_type B) \<noteq> None
    \<and> ka = m_keep_alive B m"
  using wire.reach_inv [OF assms(1)] assms(2-) by (auto simp: wire_inv_def wire_message_def)

theorem wire_messages_wellformed_witness:
  "\<exists>w m ka. session_step ref_boost default_options (new_HttpRouter :: nat http_router) silent_handler demo_start w
     \<and> ses_pending (sw_session w) = [Async_Write m ka]
     \<and> m_status ref_boost m \<in> {200, 400, 500, 503} \<and> ka = m_keep_alive ref_boost m"
proof -
  let ?w = "read_world ref_boost Success empty_request demo_start"
  let ?w1 = "upd_stats (\<lambda>t. t\<lparr>read_success_cnt := read_success_cnt t + 1\<rparr>) ?w"
  let ?w' = "refuse ref_boost default_options ''url invalid'' ?w1"
  have read: "read_into ref_boost empty_request empty_request = empty_request"
    by (simp add: ref_boost_def empty_request_def)
  then have req: "ses_request (sw_session ?w) = empty_request" by (simp add: start_simps)
  have "onRead ref_boost default_options (new_HttpRouter :: nat http_router) silent_handler 0 Success ?w = Some ?w'"
    by (simp add: onRead_def processRequest_def req) (simp add: parse_target_def ref_boost_def empty_request_def ref_parse_def)
  then have step: "session_step ref_boost default_options (new_HttpRouter :: nat http_router) silent_handler demo_start ?w'"
    by (intro session_step.read_completed [where ec = Success and msg = empty_request and now = 0])
      (simp_all add: start_simps)
  have pend: "\<exists>m ka. ses_pending (sw_session ?w') = [Async_Write m ka]"
    by (simp add: start_simps refuse_def clear_request_body_def count_handled_def writeResponse_def doWrite_def)
  then obtain m ka where m: "ses_pending (sw_session ?w') = [Async_Write m ka]" by blast
  have "reach (session_start ref_boost default_options)
      (session_step ref_boost default_options (new_HttpRouter :: nat http_router) silent_handler) ?w'"
    by (rule reach_step, rule start_reachable, rule step)
  from wire_messages_wellformed [OF this ref_response_laws ref_name_laws, of m ka] m
  have "m_status ref_boost m \<in> {200, 400, 500, 503} \<and> ka = m_keep_alive ref_boost m" by simp
  with step m show ?thesis by blast
qed

end
