(* ===== verification/Http_Session_Exchange.thy ===== *)
theory Http_Session_Exchange
  imports Http_Session_Steps
begin

section \<open>The exchanges on one connection\<close>

text \<open>
  The session with the history of its connection: the messages received and the messages
  handed to \<open>async_write\<close>, in order. What a message may answer is a relation between the
  position of a request on the connection, the request and the response, written from what
  \<open>processRequest\<close> does on each branch.
\<close>

subsection \<open>Answers\<close>

text \<open>The session as \<open>processRequest\<close> finds it for the request at position \<open>i\<close>, counted from zero.\<close>

definition asks :: "nat \<Rightarrow> beast_request \<Rightarrow> 'm http_session \<Rightarrow> bool" where
  "asks i msg s \<longleftrightarrow> ses_request s = msg \<and> ses_current_request_id s = of_nat (i + 1)"

inductive answers ::
    "'m boost \<Rightarrow> http_server_options \<Rightarrow> 'h http_router \<Rightarrow> ('h \<Rightarrow> http_request \<Rightarrow> handle_outcome)
       \<Rightarrow> nat \<Rightarrow> beast_request \<Rightarrow> 'm \<Rightarrow> bool"
  for B :: "'m boost" and opts :: http_server_options and router :: "'h http_router"
    and handle :: "'h \<Rightarrow> http_request \<Rightarrow> handle_outcome" where
  answer_url_invalid:
    "parse_target B msg = Inl e \<Longrightarrow> clean_response B old \<Longrightarrow>
     answers B opts router handle i msg
       (fill_response B opts msg (new_HttpResponse Bad_Request ''url invalid'' ''text/plain'') old)"
| answer_no_handler:
    "parse_target B msg = Inr url \<Longrightarrow> search_segments (url_segments url) router = Some None \<Longrightarrow>
     clean_response B old \<Longrightarrow>
     answers B opts router handle i msg
       (fill_response B opts msg (new_HttpResponse Bad_Request ''current url not support'' ''text/plain'') old)"
| answer_bad_method:
    "parse_target B msg = Inr url \<Longrightarrow> search_segments (url_segments url) router = Some (Some h) \<Longrightarrow>
     rq_method msg > verb_put B \<Longrightarrow> clean_response B old \<Longrightarrow>
     answers B opts router handle i msg
       (fill_response B opts msg (new_HttpResponse Bad_Request ''current method not support'' ''text/plain'') old)"
| answer_handled:
    "parse_target B msg = Inr url \<Longrightarrow> search_segments (url_segments url) router = Some (Some h) \<Longrightarrow>
     \<not> rq_method msg > verb_put B \<Longrightarrow> asks i msg (s :: 'm http_session) \<Longrightarrow>
     out = handle h (build_request opts now s url) \<Longrightarrow> rsp \<in> set (sent_now out) \<or> kept_writer out \<Longrightarrow>
     clean_response B old \<Longrightarrow>
     answers B opts router handle i msg (fill_response B opts (msg\<lparr>rq_body := []\<rparr>) rsp old)"

text \<open>Every response sent later, through a kept writer, answers this request.\<close>

definition answers_later ::
    "'m boost \<Rightarrow> http_server_options \<Rightarrow> 'h http_router \<Rightarrow> ('h \<Rightarrow> http_request \<Rightarrow> handle_outcome)
       \<Rightarrow> nat \<Rightarrow> beast_request \<Rightarrow> bool" where
  "answers_later B opts router handle i msg \<longleftrightarrow>
     (\<forall>rsp old. clean_response B old \<longrightarrow>
        answers B opts router handle i msg (fill_response B opts (msg\<lparr>rq_body := []\<rparr>) rsp old))"

subsection \<open>Steps with their history\<close>

text \<open>The messages of the writes a step started: those after the operations that were left.\<close>

fun op_messages :: "'m io_op list \<Rightarrow> 'm list" where
  "op_messages [] = []"
| "op_messages (Async_Read # ops) = op_messages ops"
| "op_messages (Async_Write m ka # ops) = m # op_messages ops"

definition started :: "'m io_op list \<Rightarrow> 'm session_world \<Rightarrow> 'm list" where
  "started left w = op_messages (drop (length left) (ses_pending (sw_session w)))"

record 'm exchange =
  ex_world :: "'m session_world"
  ex_received :: "beast_request list"
  ex_written :: "'m list"

inductive exchange_step ::
    "'m boost \<Rightarrow> http_server_options \<Rightarrow> 'h http_router \<Rightarrow> ('h \<Rightarrow> http_request \<Rightarrow> handle_outcome)
       \<Rightarrow> 'm exchange \<Rightarrow> 'm exchange \<Rightarrow> bool"
  for B :: "'m boost" and opts :: http_server_options and router :: "'h http_router"
    and handle :: "'h \<Rightarrow> http_request \<Rightarrow> handle_outcome" where
  exchange_read:
    "w = ex_world x \<Longrightarrow> Async_Read \<in> set (ses_pending (sw_session w)) \<Longrightarrow>
     left = remove1 Async_Read (ses_pending (sw_session w)) \<Longrightarrow>
     onRead B opts router handle now ec (read_world B ec msg w) = Some w' \<Longrightarrow>
     exchange_step B opts router handle x
       \<lparr>ex_world = w', ex_received = ex_received x @ (if ec = Success then [msg] else []),
        ex_written = ex_written x @ started left w'\<rparr>"
| exchange_write:
    "w = ex_world x \<Longrightarrow> Async_Write m keep_alive \<in> set (ses_pending (sw_session w)) \<Longrightarrow>
     left = remove1 (Async_Write m keep_alive) (ses_pending (sw_session w)) \<Longrightarrow>
     w' = onWrite B opts keep_alive ec (write_world ec (Async_Write m keep_alive) w) \<Longrightarrow>
     exchange_step B opts router handle x
       (x\<lparr>ex_world := w', ex_written := ex_written x @ started left w'\<rparr>)"
| exchange_send:
    "w = ex_world x \<Longrightarrow> 0 < ses_writers (sw_session w) \<Longrightarrow>
     w' = writeResponse B opts rsp (upd_session (\<lambda>s. s\<lparr>ses_writers := ses_writers s - 1\<rparr>) w) \<Longrightarrow>
     exchange_step B opts router handle x
       (x\<lparr>ex_world := w', ex_written := ex_written x @ started (ses_pending (sw_session w)) w'\<rparr>)"
| exchange_drop:
    "w = ex_world x \<Longrightarrow> 0 < ses_writers (sw_session w) \<Longrightarrow>
     exchange_step B opts router handle x
       (x\<lparr>ex_world := upd_session (\<lambda>s. s\<lparr>ses_writers := ses_writers s - 1\<rparr>) w\<rparr>)"

definition exchange_start :: "'m boost \<Rightarrow> http_server_options \<Rightarrow> 'm exchange \<Rightarrow> bool" where
  "exchange_start B opts x \<longleftrightarrow>
     session_start B opts (ex_world x) \<and> ex_received x = [] \<and> ex_written x = []"

lemma exchange_step_sound:
  "exchange_step B opts router handle x x' \<Longrightarrow>
     session_step B opts router handle (ex_world x) (ex_world x')"
  by (induction rule: exchange_step.induct)
    (auto simp del: One_nat_def intro: session_step.intros)

subsection \<open>One request\<close>

text \<open>How \<open>processRequest\<close> leaves a session that had nothing outstanding.\<close>

definition settled_request ::
    "'m boost \<Rightarrow> http_server_options \<Rightarrow> 'h http_router \<Rightarrow> ('h \<Rightarrow> http_request \<Rightarrow> handle_outcome)
       \<Rightarrow> nat \<Rightarrow> beast_request \<Rightarrow> 'm http_session \<Rightarrow> bool" where
  "settled_request B opts router handle i msg s \<longleftrightarrow>
     (\<exists>m ka. ses_pending s = [Async_Write m ka] \<and> ses_writers s = 0 \<and> answers B opts router handle i msg m)
     \<or> ses_pending s = [] \<and> ses_writers s = 0
     \<or> ses_pending s = [] \<and> ses_writers s = 1 \<and> ses_request s = msg\<lparr>rq_body := []\<rparr>
         \<and> answers_later B opts router handle i msg"

lemma settled_refuse:
  assumes "ses_pending (sw_session w) = []" "ses_writers (sw_session w) = 0"
    and "\<And>old. clean_response B old \<Longrightarrow> answers B opts router handle i msg
      (fill_response B opts msg (new_HttpResponse Bad_Request reason ''text/plain'') old)"
    and "clean_response B (ses_response (sw_session w))" "ses_request (sw_session w) = msg"
  shows "settled_request B opts router handle i msg (sw_session (refuse B opts reason w))"
  using assms(3) [OF assms(4)] assms(1,2,5)
  by (simp add: settled_request_def session_simps writeResponse_def doWrite_def)

lemma settled_dispatch:
  assumes "parse_target B msg = Inr url" "search_segments (url_segments url) router = Some (Some h)"
    "\<not> rq_method msg > verb_put B" and reply: "one_reply handle"
    and w: "asks i msg (sw_session w)" "ses_pending (sw_session w) = []" "ses_writers (sw_session w) = 0"
    and clean: "clean_response B (ses_response (sw_session w))"
  shows "settled_request B opts router handle i msg
    (sw_session (dispatch_request B opts (handle h) now url w))"
proof -
  define out where "out = handle h (build_request opts now (sw_session w) url)"
  note ans = answers.answer_handled [where handle = handle and opts = opts and now = now, OF assms(1-3) w(1) out_def]
  have msg: "ses_request (sw_session w) = msg" using w(1) by (simp add: asks_def)
  have body: "msg\<lparr>rq_body := []\<rparr> = msg" if "rq_body msg = []" using that by (cases msg) simp
  have "length (sent_now out) + (if kept_writer out then 1 else 0) \<le> (1::nat)"
    using reply by (simp add: one_reply_def out_def)
  then consider (silent) "sent_now out = []" "\<not> kept_writer out"
    | (later) "sent_now out = []" "kept_writer out"
    | (answered) rsp where "sent_now out = [rsp]" "\<not> kept_writer out"
    by (cases "sent_now out") (auto split: if_splits)
  then show ?thesis
  proof cases
    case silent
    then show ?thesis using w
      by (simp add: settled_request_def dispatch_request_def out_def [symmetric] Let_def session_simps)
  next
    case later
    then have "answers_later B opts router handle i msg" using ans by (auto simp: answers_later_def)
    with later w msg show ?thesis
      by (simp add: settled_request_def dispatch_request_def out_def [symmetric] Let_def session_simps body)
  next
    case answered
    with ans [OF _ clean, of rsp] w msg body show ?thesis
      by (cases "rq_body msg = []")
        (simp_all add: settled_request_def dispatch_request_def out_def [symmetric] Let_def session_simps
          writeResponse_def doWrite_def)
  qed
qed

lemma settled_processRequest:
  assumes "processRequest B opts router handle now w = Some w'" and reply: "one_reply handle"
    and w: "asks i msg (sw_session w)" "ses_pending (sw_session w) = []" "ses_writers (sw_session w) = 0"
    and clean: "clean_response B (ses_response (sw_session w))"
  shows "settled_request B opts router handle i msg (sw_session w')"
proof -
  have msg: "ses_request (sw_session w) = msg" using w(1) by (simp add: asks_def)
  note refused = settled_refuse [OF w(2,3) _ clean msg]
  show ?thesis
    using assms(1)
    by (auto simp: processRequest_def msg split: sum.splits option.splits if_splits
        intro!: refused settled_dispatch [OF _ _ _ reply w clean] intro: answers.intros)
qed

lemma processRequest_request_id:
  "processRequest B opts router handle now w = Some w' \<Longrightarrow>
     ses_current_request_id (sw_session w') = ses_current_request_id (sw_session w)"
  by (auto simp: processRequest_def refuse_def dispatch_request_def session_simps Let_def
      split: sum.splits option.splits if_splits)

subsection \<open>Invariant\<close>

definition answered ::
    "'m boost \<Rightarrow> http_server_options \<Rightarrow> 'h http_router \<Rightarrow> ('h \<Rightarrow> http_request \<Rightarrow> handle_outcome)
       \<Rightarrow> beast_request list \<Rightarrow> 'm list \<Rightarrow> bool" where
  "answered B opts router handle rs ms \<longleftrightarrow> length ms \<le> length rs \<and> length rs \<le> length ms + 1
     \<and> (\<forall>i < length ms. answers B opts router handle i (rs ! i) (ms ! i))"

lemma answered_receive:
  "answered B opts router handle rs ms \<Longrightarrow> length rs = length ms \<Longrightarrow> answered B opts router handle (rs @ [msg]) ms"
  by (simp add: answered_def nth_append)

lemma answered_write:
  assumes "answered B opts router handle rs ms" "length rs = length ms + 1"
    and "answers B opts router handle (length ms) (last rs) m"
  shows "answered B opts router handle rs (ms @ [m])"
proof -
  have "rs ! length ms = last rs" using assms(2) by (cases rs rule: rev_cases) (auto simp: nth_append)
  with assms show ?thesis by (auto simp: answered_def nth_append less_Suc_eq)
qed

definition exchange_inv ::
    "'m boost \<Rightarrow> http_server_options \<Rightarrow> 'h http_router \<Rightarrow> ('h \<Rightarrow> http_request \<Rightarrow> handle_outcome)
       \<Rightarrow> 'm exchange \<Rightarrow> bool" where
  "exchange_inv B opts router handle x \<longleftrightarrow>
     (let s = sw_session (ex_world x); rs = ex_received x; ms = ex_written x in
      answered B opts router handle rs ms
      \<and> (ses_pending s = [Async_Read] \<longrightarrow>
           length rs = length ms \<and> ses_current_request_id s = of_nat (length rs + 1))
      \<and> (\<forall>m ka. ses_pending s = [Async_Write m ka] \<longrightarrow>
           length rs = length ms \<and> ms \<noteq> [] \<and> last ms = m \<and> ses_current_request_id s = of_nat (length rs))
      \<and> (ses_writers s \<noteq> 0 \<longrightarrow>
           length rs = length ms + 1 \<and> answers_later B opts router handle (length ms) (last rs)
           \<and> ses_request s = (last rs)\<lparr>rq_body := []\<rparr> \<and> ses_current_request_id s = of_nat (length rs)))"

lemma exchange_inv_start: "exchange_start B opts x \<Longrightarrow> exchange_inv B opts router handle x"
  by (auto simp: exchange_start_def session_start_def exchange_inv_def answered_def start_simps Let_def)

lemma exchange_inv_read:
  assumes inv: "exchange_inv B opts router handle x" and sinv: "session_inv B opts w"
    and laws: "one_reply handle" "read_laws B"
    and w: "w = ex_world x" and pend: "Async_Read \<in> set (ses_pending (sw_session w))"
    and left: "left = remove1 Async_Read (ses_pending (sw_session w))"
    and step: "onRead B opts router handle now ec (read_world B ec msg w) = Some w'"
  shows "exchange_inv B opts router handle
    \<lparr>ex_world = w', ex_received = ex_received x @ (if ec = Success then [msg] else []),
     ex_written = ex_written x @ started left w'\<rparr>"
proof -
  have s: "ses_pending (sw_session w) = [Async_Read]" "ses_writers (sw_session w) = 0"
    "rq_body (ses_request (sw_session w)) = []" "clean_response B (ses_response (sw_session w))"
    using sinv pend by (auto simp: session_inv_def Let_def fresh_session_def writing_session_def)
  have x: "answered B opts router handle (ex_received x) (ex_written x)"
    "length (ex_received x) = length (ex_written x)"
    "ses_current_request_id (sw_session w) = of_nat (length (ex_received x) + 1)"
    using inv s(1) by (auto simp: exchange_inv_def Let_def w)
  have left': "left = []" using left s(1) by simp
  show ?thesis
  proof (cases "ec = Success")
    case False
    with step left' s x show ?thesis
      by (auto simp: onRead_def exchange_inv_def started_def Let_def split: if_splits)
  next
    case True
    let ?w = "upd_stats (\<lambda>t. t\<lparr>read_success_cnt := read_success_cnt t + 1\<rparr>) (read_world B ec msg w)"
    have read: "read_into B (ses_request (sw_session w)) msg = msg"
      using laws(2) s(3) by (simp add: read_laws_def)
    have proc: "processRequest B opts router handle now ?w = Some w'"
      using step True by (simp add: onRead_def)
    have "settled_request B opts router handle (length (ex_received x)) msg (sw_session w')"
      using s x True read by (intro settled_processRequest [OF proc laws(1)]) (simp_all add: asks_def)
    moreover note answered_receive [OF x(1,2), of msg]
    moreover from this have "answered B opts router handle (ex_received x @ [msg]) (ex_written x @ [m])"
      if "answers B opts router handle (length (ex_received x)) msg m" for m
      using answered_write [of B opts router handle "ex_received x @ [msg]" "ex_written x" m] that x(2) by simp
    ultimately show ?thesis
      using processRequest_request_id [OF proc] x(2,3) True left'
      by (auto simp: exchange_inv_def started_def settled_request_def Let_def)
  qed
qed

lemma exchange_inv_step:
  assumes inv: "exchange_inv B opts router handle x" and sinv: "session_inv B opts (ex_world x)"
    and laws: "one_reply handle" "read_laws B"
    and step: "exchange_step B opts router handle x x'"
  shows "exchange_inv B opts router handle x'"
  using step
proof cases
  case (exchange_read w left now ec msg w')
  then show ?thesis using exchange_inv_read [OF inv _ laws] sinv by simp
next
  case (exchange_write w m keep_alive left w' ec)
  then have "ses_pending (sw_session w) = [Async_Write m keep_alive]" "ses_writers (sw_session w) = 0"
    using sinv by (auto simp: session_inv_def Let_def writing_session_def fresh_session_def)
  with inv exchange_write show ?thesis
    by (auto simp: exchange_inv_def started_def Let_def onWrite_def doRead_def)
next
  case (exchange_send w w' rsp)
  then have s: "ses_pending (sw_session w) = []" "ses_writers (sw_session w) = 1"
    "clean_response B (ses_response (sw_session w))"
    using sinv by (auto simp: session_inv_def Let_def writing_session_def fresh_session_def)
  let ?m = "fill_response B opts (ses_request (sw_session w)) rsp (ses_response (sw_session w))"
  have x: "answered B opts router handle (ex_received x) (ex_written x)"
    "length (ex_received x) = length (ex_written x) + 1"
    "answers B opts router handle (length (ex_written x)) (last (ex_received x)) ?m"
    "ses_current_request_id (sw_session w) = of_nat (length (ex_received x))"
    using inv s exchange_send by (auto simp: exchange_inv_def Let_def answers_later_def)
  have w': "ses_pending (sw_session w') = [Async_Write ?m (m_keep_alive B ?m)]"
    "ses_writers (sw_session w') = 0" "ses_current_request_id (sw_session w') = ses_current_request_id (sw_session w)"
    using exchange_send s by (simp_all add: writeResponse_def doWrite_def)
  with exchange_send answered_write [OF x(1-3)] x(2,4) s show ?thesis
    by (auto simp: exchange_inv_def started_def Let_def)
next
  case (exchange_drop w)
  then have "ses_pending (sw_session w) = []" "ses_writers (sw_session w) = 1"
    using sinv by (auto simp: session_inv_def Let_def writing_session_def fresh_session_def)
  with exchange_drop inv show ?thesis by (simp add: exchange_inv_def Let_def)
qed

interpretation exchanges: refinement_system "exchange_start B opts" "exchange_step B opts router handle"
    "\<lambda>x. response_laws B \<longrightarrow> one_reply handle \<longrightarrow> read_laws B \<longrightarrow>
       session_inv B opts (ex_world x) \<and> exchange_inv B opts router handle x"
    "session_start B opts" "session_step B opts router handle" ex_world
  for B :: "'m boost" and opts and router :: "'h http_router" and handle
proof
  fix x assume "exchange_start B opts x"
  then show "session_start B opts (ex_world x)"
    "response_laws B \<longrightarrow> one_reply handle \<longrightarrow> read_laws B \<longrightarrow>
       session_inv B opts (ex_world x) \<and> exchange_inv B opts router handle x"
    by (auto simp: exchange_start_def intro: session_inv_start exchange_inv_start)
next
  fix x x' assume step: "exchange_step B opts router handle x x'"
    and inv: "response_laws B \<longrightarrow> one_reply handle \<longrightarrow> read_laws B \<longrightarrow>
       session_inv B opts (ex_world x) \<and> exchange_inv B opts router handle x"
  show "session_step B opts router handle (ex_world x) (ex_world x') \<or> ex_world x' = ex_world x"
    using exchange_step_sound [OF step] ..
  show "response_laws B \<longrightarrow> one_reply handle \<longrightarrow> read_laws B \<longrightarrow>
       session_inv B opts (ex_world x') \<and> exchange_inv B opts router handle x'"
    using inv session_inv_step [OF _ _ _ exchange_step_sound [OF step]] exchange_inv_step [OF _ _ _ _ step]
    by blast
qed

text \<open>
  C10. Requests on a connection are answered in order, each at most once, and each with a response
  of its own: with handlers that answer at most once, the response written at position \<open>i\<close>
  is one that \<open>processRequest\<close> builds for the request received at position \<open>i\<close>, from an empty
  message object and that request's own fields: the refusal its target or method calls for,
  or a response of the handler the router gives for it, which was told the request number
  \<open>i + 1\<close>. No request is read before the response to the last one has been written, so at most
  one is waiting for its answer; and while a write is outstanding it is that of the last
  response.
\<close>

theorem responses_in_order:
  assumes "reach (exchange_start B opts) (exchange_step B opts router handle) x"
    and "response_laws B" and "one_reply handle" and "read_laws B"
    and "s = sw_session (ex_world x)"
  shows "length (ex_written x) \<le> length (ex_received x)
    \<and> length (ex_received x) \<le> length (ex_written x) + 1
    \<and> (\<forall>i < length (ex_written x). answers B opts router handle i (ex_received x ! i) (ex_written x ! i))
    \<and> (Async_Read \<in> set (ses_pending s) \<longrightarrow> length (ex_received x) = length (ex_written x))
    \<and> (\<forall>m ka. Async_Write m ka \<in> set (ses_pending s) \<longrightarrow>
         length (ex_received x) = length (ex_written x) \<and> m = last (ex_written x))"
proof -
  from exchanges.reach_inv [OF assms(1)] assms(2-4)
  have inv: "exchange_inv B opts router handle x" and sinv: "session_inv B opts (ex_world x)" by blast+
  have "length (ses_pending s) \<le> 1"
    using sinv by (auto simp: session_inv_def writing_session_def assms(5) Let_def)
  then consider "ses_pending s = []" | op where "ses_pending s = [op]"
    by (cases "ses_pending s") auto
  then show ?thesis
    using inv by cases (auto simp: exchange_inv_def answered_def assms(5) Let_def)
qed

text \<open>The witness: a request for a path without handler, received and refused.\<close>

theorem responses_in_order_witness:
  "\<exists>x. reach (exchange_start ref_boost default_options)
       (exchange_step ref_boost default_options new_HttpRouter silent_handler) x
     \<and> ex_received x = [demo_request] \<and> length (ex_written x) = 1
     \<and> answers ref_boost default_options new_HttpRouter silent_handler 0 demo_request (hd (ex_written x))"
proof -
  let ?x = "\<lparr>ex_world = demo_start, ex_received = [], ex_written = []\<rparr>"
  let ?reach = "reach (exchange_start ref_boost default_options)
       (exchange_step ref_boost default_options new_HttpRouter silent_handler)"
  have start: "?reach ?x" by (rule reach_start) (auto simp: exchange_start_def session_start_def)
  have pend: "ses_pending (sw_session demo_start) = [Async_Read]" by (simp add: start_simps)
  let ?r = "read_world ref_boost Success demo_request demo_start"
  have none: "search_segments [''hello''] (new_HttpRouter :: nat http_router) = Some None"
    by (simp add: tree.lookup_ok [OF router_wf_new] table_of_new route_search_def route_empty_def longest_node_def)
  have "read_into ref_boost (ses_request (sw_session demo_start)) demo_request = demo_request"
    using ref_read_laws by (simp add: read_laws_def start_simps empty_request_def)
  with demo_url none obtain w' m ka where w': "onRead ref_boost default_options new_HttpRouter silent_handler 0 Success ?r = Some w'"
    "ses_pending (sw_session w') = [Async_Write m ka]"
    by (auto simp: onRead_def processRequest_def session_simps writeResponse_def doWrite_def pend)
  let ?x' = "\<lparr>ex_world = w', ex_received = [demo_request], ex_written = [m]\<rparr>"
  have "exchange_step ref_boost default_options new_HttpRouter silent_handler ?x ?x'"
    using exchange_step.exchange_read [where x = ?x and w = demo_start and left = "[]" and ec = Success
        and msg = demo_request and now = 0 and w' = w' and B = ref_boost and opts = default_options
        and router = new_HttpRouter and handle = silent_handler] w' pend
    by (simp add: started_def)
  with start have r: "?reach ?x'" by (rule reach_step)
  from responses_in_order [OF r ref_response_laws one_reply_silent ref_read_laws refl] r
  show ?thesis by (intro exI [where x = ?x']) simp
qed

end
