(* ===== verification/Http_Server_Impl.thy ===== *)
theory Http_Server_Impl
  imports Http_Session_Steps
begin

section \<open>The server (http\_server\_impl.h, http\_server\_impl.cpp, http\_server.cpp)\<close>

text \<open>
  \<open>HttpServerImpl\<close> owns the statistics, the options, the router, the \<open>io_context\<close>, the
  acceptor and the thread pool. Live sessions are kept in a map from addresses; in the
  code they are owned by the completion handlers of their outstanding operations and by
  the writers handlers keep, so a session without either is destroyed at once
  (\<open>put_session\<close>). Completion handlers run one at a time in the model; different sessions
  share only the atomic counters and the router, which is not modified while running.

  The results of the network calls of \<open>run\<close> are the parameter \<open>net_results\<close>. The static
  session counter \<open>HttpSession::s_id\<close> is kept with the server; \<open>Http_Process\<close> shares it between
  the servers of a process.
\<close>

subsection \<open>Data\<close>

record ('m, 'h) http_server_impl =
  srv_statistics :: http_statistics_internal
  srv_opts :: http_server_options
  srv_router :: "'h http_router"
  srv_io_stopped :: bool
  srv_acceptor_open :: bool
  srv_accepts :: nat
  srv_threads :: nat
  srv_sessions :: "nat \<rightharpoonup> 'm http_session"
  srv_next :: nat
  srv_s_id :: u64

text \<open>
  \<open>srv_accepts\<close> counts the \<open>async_accept\<close> operations whose completion handler has not run,
  \<open>srv_threads\<close> the threads in \<open>io_thread_pool_\<close>, \<open>srv_next\<close> the addresses of sessions used.
\<close>

record net_results =
  net_address_ok :: bool
  net_open :: "bool \<Rightarrow> error_code"
  net_reuse_address :: error_code
  net_linger :: error_code
  net_bind :: error_code
  net_listen :: error_code

datatype server_error = Server_Error string | System_Error error_code | Address_Error

definition new_HttpServerImpl :: "http_server_options \<Rightarrow> ('m, 'h) http_server_impl" where
  "new_HttpServerImpl opts =
     \<lparr>srv_statistics = zero_statistics, srv_opts = opts, srv_router = new_HttpRouter,
      srv_io_stopped = True, srv_acceptor_open = False, srv_accepts = 0, srv_threads = 0,
      srv_sessions = Map.empty, srv_next = 0, srv_s_id = 0\<rparr>"

subsection \<open>Operations\<close>

definition registerHandler ::
    "'m boost \<Rightarrow> string \<Rightarrow> 'h option \<Rightarrow> ('m, 'h) http_server_impl
       \<Rightarrow> router_error + ('m, 'h) http_server_impl" where
  "registerHandler B path handler srv =
     (case router_insert (segments_view B) path handler (srv_router srv) of
        Inl e \<Rightarrow> Inl e | Inr r \<Rightarrow> Inr (srv\<lparr>srv_router := r\<rparr>))"

definition resetAllHttpStatistics :: "('m, 'h) http_server_impl \<Rightarrow> ('m, 'h) http_server_impl" where
  "resetAllHttpStatistics srv =
     srv\<lparr>srv_statistics := (srv_statistics srv)
       \<lparr>session_cnt := 0, read_timeout_cnt := 0, handle_request_cnt := 0, read_fail_cnt := 0,
        read_success_cnt := 0, write_timeout_cnt := 0, write_fail_cnt := 0,
        write_success_cnt := 0, working_handler_cnt := 0\<rparr>\<rparr>"

definition getHttpStatistics :: "('m, 'h) http_server_impl \<Rightarrow> http_statistics" where
  "getHttpStatistics srv = (let t = srv_statistics srv in
     \<lparr>hs_session_cnt = session_cnt t, hs_read_timeout_cnt = read_timeout_cnt t,
      hs_read_success_cnt = read_success_cnt t, hs_read_fail_cnt = read_fail_cnt t,
      hs_write_timeout_cnt = write_timeout_cnt t, hs_write_success_cnt = write_success_cnt t,
      hs_write_fail_cnt = write_fail_cnt t, hs_handler_request_cnt = handle_request_cnt t,
      hs_working_handler_cnt = working_handler_cnt t\<rparr>)"

definition doAccept :: "('m, 'h) http_server_impl \<Rightarrow> ('m, 'h) http_server_impl" where
  "doAccept srv = srv\<lparr>srv_accepts := srv_accepts srv + 1\<rparr>"

text \<open>
  The thread loop of \<open>run\<close>: \<open>for (i = 0; i < thread_num_ - 1; ++i)\<close>. \<open>i\<close> is an \<open>int\<close> compared as
  an unsigned 32-bit number; its increment stays defined for fewer than 2 to the 31 threads.
\<close>

function spawn_threads :: "u32 \<Rightarrow> u32 \<Rightarrow> ('m, 'h) http_server_impl \<Rightarrow> ('m, 'h) http_server_impl" where
  "spawn_threads i n srv =
     (if i < n then spawn_threads (i + 1) n (srv\<lparr>srv_threads := srv_threads srv + 1\<rparr>) else srv)"
  by pat_completeness auto
termination
  by (relation "measure (\<lambda>(i, n, _). unat n - unat i)")
    (auto simp: unat_inc_less word_less_nat_alt)

declare spawn_threads.simps [simp del]

text \<open>
  \<open>run\<close>: the error thrown, if any, and the state then; without error the state in which the
  calling thread and the pool enter \<open>io_context_.run()\<close>.
\<close>

definition server_run ::
    "net_results \<Rightarrow> ('m, 'h) http_server_impl \<Rightarrow> server_error option \<times> ('m, 'h) http_server_impl" where
  "server_run net srv =
     (if opt_thread_num (srv_opts srv) = 0 then (Some (Server_Error ''thread count should > 0''), srv)
      else if opt_max_request_size (srv_opts srv) = 0
      then (Some (Server_Error ''max request should > 0''), srv)
      else if opt_addr (srv_opts srv) = [] then (Some (Server_Error ''addr is empty''), srv)
      else
        let srv = srv\<lparr>srv_s_id := 0\<rparr>;
            srv = resetAllHttpStatistics srv;
            srv = srv\<lparr>srv_io_stopped := False\<rparr>
        in if \<not> net_address_ok net then (Some Address_Error, srv)
        else let ec = net_open net (srv_acceptor_open srv)
        in if ec \<noteq> Success then (Some (System_Error ec), srv)
        else let srv = srv\<lparr>srv_acceptor_open := True\<rparr>
        in if net_reuse_address net \<noteq> Success then (Some (System_Error (net_reuse_address net)), srv)
        else if net_linger net \<noteq> Success then (Some (System_Error (net_linger net)), srv)
        else if net_bind net \<noteq> Success then (Some (System_Error (net_bind net)), srv)
        else if net_listen net \<noteq> Success then (Some (System_Error (net_listen net)), srv)
        else (None, spawn_threads 0 (opt_thread_num (srv_opts srv) - 1) (doAccept srv)))"

text \<open>
  \<open>stop\<close>: the loop joins every thread of the pool, then the pool is cleared. The error code
  tested after \<open>close\<close> is never assigned, so that branch is not taken.
\<close>

definition server_stop :: "('m, 'h) http_server_impl \<Rightarrow> ('m, 'h) http_server_impl" where
  "server_stop srv =
     (let srv = (if \<not> srv_io_stopped srv
                 then srv\<lparr>srv_io_stopped := True, srv_threads := 0\<rparr> else srv)
      in if srv_acceptor_open srv then srv\<lparr>srv_acceptor_open := False\<rparr> else srv)"

subsection \<open>Sessions of the server\<close>

definition session_world_of :: "('m, 'h) http_server_impl \<Rightarrow> 'm http_session \<Rightarrow> 'm session_world" where
  "session_world_of srv s = \<lparr>sw_session = s, sw_stats = srv_statistics srv\<rparr>"

text \<open>Store a session after a callback; with no owner left, its destructor runs.\<close>

definition put_session ::
    "nat \<Rightarrow> 'm session_world \<Rightarrow> ('m, 'h) http_server_impl \<Rightarrow> ('m, 'h) http_server_impl" where
  "put_session a w srv =
     (if ses_pending (sw_session w) = [] \<and> ses_writers (sw_session w) = 0
      then srv\<lparr>srv_sessions := (srv_sessions srv)(a := None),
               srv_statistics := sw_stats (delete_HttpSession w)\<rparr>
      else srv\<lparr>srv_sessions := (srv_sessions srv)(a \<mapsto> sw_session w),
               srv_statistics := sw_stats w\<rparr>)"

definition onAccept ::
    "'m boost \<Rightarrow> error_code \<Rightarrow> ('m, 'h) http_server_impl \<Rightarrow> ('m, 'h) http_server_impl" where
  "onAccept B ec srv =
     doAccept
       (if ec = Success
        then let srv = srv\<lparr>srv_s_id := srv_s_id srv + 1\<rparr>;
                 w = new_HttpSession B (srv_opts srv) (srv_s_id srv) (srv_statistics srv);
                 a = srv_next srv
             in put_session a (session_run (srv_opts srv) w) (srv\<lparr>srv_next := a + 1\<rparr>)
        else srv)"

declare onAccept_def [server_simps] doAccept_def [server_simps] put_session_def [server_simps]

subsection \<open>Events\<close>

text \<open>
  While the \<open>io_context\<close> runs, an accept or a session's operation completes. A session
  whose handler kept the writer can also move when it is stopped: \<open>send\<close> runs on the
  handler's thread.
\<close>

inductive server_step ::
    "'m boost \<Rightarrow> ('h \<Rightarrow> http_request \<Rightarrow> handle_outcome)
       \<Rightarrow> ('m, 'h) http_server_impl \<Rightarrow> ('m, 'h) http_server_impl \<Rightarrow> bool"
  for B :: "'m boost" and handle :: "'h \<Rightarrow> http_request \<Rightarrow> handle_outcome" where
  accept_completed:
    "\<not> srv_io_stopped srv \<Longrightarrow> 0 < srv_accepts srv \<Longrightarrow>
     server_step B handle srv (onAccept B ec (srv\<lparr>srv_accepts := srv_accepts srv - 1\<rparr>))"
| session_moved:
    "\<not> srv_io_stopped srv \<or> 0 < ses_writers s \<Longrightarrow> srv_sessions srv a = Some s \<Longrightarrow>
     session_step B (srv_opts srv) (srv_router srv) handle (session_world_of srv s) w \<Longrightarrow>
     server_step B handle srv (put_session a w srv)"

text \<open>A server that has just entered \<open>io_context_.run()\<close>, its first time.\<close>

definition server_started :: "('m, 'h) http_server_impl \<Rightarrow> bool" where
  "server_started srv \<longleftrightarrow>
     (\<exists>net opts router. router_wf router
        \<and> server_run net ((new_HttpServerImpl opts)\<lparr>srv_router := router\<rparr>) = (None, srv))"

end
