(* ===== verification/Http_Server_Core.thy ===== *)
theory Http_Server_Core
  imports Http_Server_Impl
begin

section \<open>What every event of the server keeps\<close>

text \<open>
  The effect of a session's steps on the counters, and the core of the server's invariants:
  it holds of a server whatever runs, stops and restarts came before, with \<open>k\<close> the number
  of sessions that were alive when the counters were last reset.
\<close>

subsection \<open>Counters and numbers under a session's steps\<close>

lemma session_step_counters:
  assumes wf: "router_wf router" and "session_step B opts router handle w w'"
  shows "session_cnt (sw_stats w') = session_cnt (sw_stats w)
    \<and> handle_request_cnt (sw_stats w') - read_success_cnt (sw_stats w') =
       handle_request_cnt (sw_stats w) - read_success_cnt (sw_stats w)
    \<and> working_handler_cnt (sw_stats w') = working_handler_cnt (sw_stats w)"
  using assms(2)
proof cases
  case (read_completed now ec msg)
  show ?thesis
  proof (cases "ec = Success")
    case True
    let ?w = "upd_stats (\<lambda>t. t\<lparr>read_success_cnt := read_success_cnt t + 1\<rparr>) (read_world B ec msg w)"
    have "processRequest B opts router handle now ?w = Some w'"
      using read_completed True by (simp add: onRead_def)
    with processRequest_cases [OF wf refl, of B opts handle now ?w] show ?thesis by auto
  next
    case False
    with read_completed show ?thesis by (auto simp: onRead_def split: if_splits)
  qed
next
  case (write_completed m ka ec)
  then show ?thesis by (auto simp: onWrite_def doRead_def)
qed simp_all

lemma onWrite_id: "ses_id (sw_session (onWrite B opts ka ec w)) = ses_id (sw_session w)"
  by (simp add: onWrite_def doRead_def)

lemma processRequest_id:
  "processRequest B opts router handle now w = Some w' \<Longrightarrow>
     ses_id (sw_session w') = ses_id (sw_session w)"
  by (auto simp: processRequest_def refuse_def dispatch_request_def session_simps Let_def split: sum.splits option.splits if_splits)

lemma session_step_id:
  "session_step B opts router handle w w' \<Longrightarrow> ses_id (sw_session w') = ses_id (sw_session w)"
  by (induction rule: session_step.induct)
    (auto simp: onRead_def onWrite_id dest: processRequest_id split: if_splits)

subsection \<open>The core invariant\<close>

definition live_core :: "'m boost \<Rightarrow> http_server_options \<Rightarrow> 'm http_session \<Rightarrow> bool" where
  "live_core B opts s \<longleftrightarrow> (ses_pending s \<noteq> [] \<or> ses_writers s \<noteq> 0)
     \<and> (\<forall>t. session_inv B opts \<lparr>sw_session = s, sw_stats = t\<rparr>)"

definition server_core :: "'m boost \<Rightarrow> nat \<Rightarrow> ('m, 'h) http_server_impl \<Rightarrow> bool" where
  "server_core B k srv \<longleftrightarrow>
     router_wf (srv_router srv)
     \<and> dom (srv_sessions srv) \<subseteq> {..<srv_next srv}
     \<and> session_cnt (srv_statistics srv) = of_nat (card (dom (srv_sessions srv))) - of_nat k
     \<and> handle_request_cnt (srv_statistics srv) = read_success_cnt (srv_statistics srv)
     \<and> working_handler_cnt (srv_statistics srv) = 0
     \<and> (\<forall>a s. srv_sessions srv a = Some s \<longrightarrow> live_core B (srv_opts srv) s)"

lemma server_core_finite: "server_core B k srv \<Longrightarrow> finite (dom (srv_sessions srv))"
  by (auto simp: server_core_def intro: finite_subset)

lemma live_core_one:
  "live_core B opts s \<Longrightarrow> length (ses_pending s) + ses_writers s = 1"
  by (auto simp: live_core_def session_inv_def Let_def writing_session_def)

lemma session_inv_stats: "session_inv B opts w \<Longrightarrow> session_inv B opts \<lparr>sw_session = sw_session w, sw_stats = t\<rparr>"
  by (simp add: session_inv_def)

text \<open>What a successful accept adds.\<close>

lemma onAccept_new:
  fixes srv :: "('m, 'h) http_server_impl"
  assumes "w = session_run (srv_opts srv) (new_HttpSession B (srv_opts srv) (srv_s_id srv + 1) (srv_statistics srv))"
  shows "onAccept B Success srv =
    srv\<lparr>srv_accepts := srv_accepts srv + 1, srv_s_id := srv_s_id srv + 1, srv_next := srv_next srv + 1,
        srv_sessions := (srv_sessions srv)(srv_next srv \<mapsto> sw_session w),
        srv_statistics := (srv_statistics srv)\<lparr>session_cnt := session_cnt (srv_statistics srv) + 1\<rparr>\<rparr>"
  by (simp add: assms server_simps start_simps Let_def)

lemma server_core_accept:
  assumes core: "server_core B k srv" and laws: "response_laws B"
  shows "server_core B k (onAccept B ec (srv\<lparr>srv_accepts := n\<rparr>))"
proof (cases "ec = Success")
  case False
  then show ?thesis using core by (simp add: onAccept_def doAccept_def server_core_def)
next
  case True
  let ?w = "session_run (srv_opts srv)
    (new_HttpSession B (srv_opts srv) (srv_s_id srv + 1) (srv_statistics srv))"
  have "session_inv B (srv_opts srv) ?w"
    by (rule session_inv_start [OF laws]) (auto simp: session_start_def)
  moreover have "ses_pending (sw_session ?w) \<noteq> []" by (simp add: start_simps)
  ultimately have live: "live_core B (srv_opts srv) (sw_session ?w)"
    using session_inv_stats unfolding live_core_def by blast
  have new: "srv_next srv \<notin> dom (srv_sessions srv)"
    using core by (auto simp: server_core_def)
  show ?thesis
    using core live new server_core_finite [OF core]
    by (auto simp: True onAccept_new [OF refl] server_core_def)
qed

lemma server_core_session:
  assumes core: "server_core B k srv" and laws: "response_laws B" and reply: "one_reply handle"
    and s: "srv_sessions srv a = Some s"
    and step: "session_step B (srv_opts srv) (srv_router srv) handle (session_world_of srv s) w"
  shows "server_core B k (put_session a w srv)"
proof -
  have wf: "router_wf (srv_router srv)" and old: "live_core B (srv_opts srv) s"
    using core s by (auto simp: server_core_def)
  note cnt = session_step_counters [OF wf step]
  have sinv: "session_inv B (srv_opts srv) w"
    using session_inv_step [OF laws reply _ step] old by (simp add: live_core_def session_world_of_def)
  have fin: "finite (dom (srv_sessions srv))" and mem: "a \<in> dom (srv_sessions srv)"
    using server_core_finite [OF core] s by auto
  show ?thesis
  proof (cases "ses_pending (sw_session w) = [] \<and> ses_writers (sw_session w) = 0")
    case True
    have "of_nat (card (dom (srv_sessions srv))) - 1 =
        (of_nat (card (dom (srv_sessions srv) - {a})) :: u32)"
      unfolding card_Suc_Diff1 [OF fin mem, symmetric] by simp
    then have "of_nat (card (dom (srv_sessions srv))) - of_nat k - 1 =
        (of_nat (card (dom (srv_sessions srv) - {a})) - of_nat k :: u32)"
      by (metis diff_right_commute)
    then show ?thesis
      using True core cnt
      by (auto simp: put_session_def delete_HttpSession_def server_core_def session_world_of_def)
  next
    case False
    then have "live_core B (srv_opts srv) (sw_session w)"
      using session_inv_stats [OF sinv] by (auto simp: live_core_def)
    with False show ?thesis
      using core cnt mem
      by (auto simp: put_session_def server_core_def session_world_of_def insert_absorb)
  qed
qed

lemma server_core_step:
  assumes core: "server_core B k srv" and laws: "response_laws B" and reply: "one_reply handle"
    and step: "server_step B handle srv srv'"
  shows "server_core B k srv'"
  using step
proof cases
  case (accept_completed ec)
  then show ?thesis using server_core_accept [OF core laws] by blast
next
  case (session_moved s a w)
  then show ?thesis using server_core_session [OF core laws reply] by blast
qed

end
