(* ===== verification/Http_Server_Props.thy ===== *)
theory Http_Server_Props
  imports Http_Server_Core
begin

section \<open>Properties of the server\<close>

text \<open>
  Starting and stopping (\<open>run\<close>, \<open>stop\<close>), what a running server keeps true of its sessions
  and counters in every state it reaches, and what a second run inherits from the first.
\<close>

subsection \<open>run and stop\<close>

lemma spawn_threads_eq:
  "spawn_threads i n srv = srv\<lparr>srv_threads := srv_threads srv + (unat n - unat i)\<rparr>"
proof (induction i n srv rule: spawn_threads.induct)
  case (1 i n srv)
  show ?case
  proof (cases "i < n")
    case True
    with 1 show ?thesis
      by (subst spawn_threads.simps) (simp add: unat_inc_less word_less_nat_alt)
  next
    case False
    then show ?thesis
      by (subst spawn_threads.simps) (simp add: word_less_nat_alt)
  qed
qed

text \<open>The state a successful \<open>run\<close> leaves to the event loop.\<close>

definition running_state :: "('m, 'h) http_server_impl \<Rightarrow> ('m, 'h) http_server_impl" where
  "running_state srv =
     srv\<lparr>srv_s_id := 0, srv_statistics := zero_statistics, srv_io_stopped := False,
         srv_acceptor_open := True, srv_accepts := srv_accepts srv + 1,
         srv_threads := srv_threads srv + (unat (opt_thread_num (srv_opts srv)) - 1)\<rparr>"

lemma reset_eq: "resetAllHttpStatistics srv = srv\<lparr>srv_statistics := zero_statistics\<rparr>"
  by (cases "srv_statistics srv") (simp add: resetAllHttpStatistics_def zero_statistics_def)

lemma server_run_None_iff:
  "server_run net srv = (None, srv') \<longleftrightarrow>
     opt_thread_num (srv_opts srv) \<noteq> 0 \<and> opt_max_request_size (srv_opts srv) \<noteq> 0
     \<and> opt_addr (srv_opts srv) \<noteq> [] \<and> net_address_ok net
     \<and> net_open net (srv_acceptor_open srv) = Success \<and> net_reuse_address net = Success
     \<and> net_linger net = Success \<and> net_bind net = Success \<and> net_listen net = Success
     \<and> srv' = running_state srv"
proof -
  have "unat (n - 1) = unat n - 1" if "n \<noteq> 0" for n :: u32
    using that by (simp add: unat_minus_one)
  then show ?thesis
    by (auto simp: server_run_def Let_def reset_eq spawn_threads_eq doAccept_def running_state_def)
qed

definition good_net :: net_results where
  "good_net = \<lparr>net_address_ok = True,
     net_open = (\<lambda>already. if already then Other_Error ''Already open'' else Success),
     net_reuse_address = Success, net_linger = Success, net_bind = Success, net_listen = Success\<rparr>"

text \<open>
  C17. \<open>run\<close> enters the event loop exactly when the thread count, the request size and the
  address are valid and every network call succeeds; with invalid options it throws before
  anything is changed.
\<close>

theorem server_run_starts:
  "((\<exists>srv'. server_run net srv = (None, srv')) \<longleftrightarrow>
     opt_thread_num (srv_opts srv) \<noteq> 0 \<and> opt_max_request_size (srv_opts srv) \<noteq> 0
     \<and> opt_addr (srv_opts srv) \<noteq> [] \<and> net_address_ok net
     \<and> net_open net (srv_acceptor_open srv) = Success \<and> net_reuse_address net = Success
     \<and> net_linger net = Success \<and> net_bind net = Success \<and> net_listen net = Success)
   \<and> (opt_thread_num (srv_opts srv) = 0 \<or> opt_max_request_size (srv_opts srv) = 0
        \<or> opt_addr (srv_opts srv) = [] \<longrightarrow>
      (\<exists>msg. server_run net srv = (Some (Server_Error msg), srv)))"
  by (auto simp: server_run_None_iff) (simp_all add: server_run_def)

theorem server_run_starts_witness:
  "\<exists>msg. server_run good_net (new_HttpServerImpl (default_options\<lparr>opt_thread_num := 0\<rparr>)
      :: (ref_message, nat) http_server_impl)
    = (Some (Server_Error msg), new_HttpServerImpl (default_options\<lparr>opt_thread_num := 0\<rparr>))"
  using server_run_starts [of good_net "new_HttpServerImpl (default_options\<lparr>opt_thread_num := 0\<rparr>)
      :: (ref_message, nat) http_server_impl"]
  by (simp add: new_HttpServerImpl_def)

text \<open>
  The state in which \<open>run\<close> enters the event loop: statistics and session numbers reset,
  acceptor open, exactly as many threads (pool and caller) as configured when the pool was
  empty; options, router and live sessions as before.
\<close>

theorem server_run_state:
  assumes "server_run net srv = (None, srv')" and "srv_threads srv = 0"
  shows "srv_statistics srv' = zero_statistics \<and> srv_s_id srv' = 0 \<and> \<not> srv_io_stopped srv'
    \<and> srv_acceptor_open srv' \<and> srv_accepts srv' = srv_accepts srv + 1
    \<and> srv_threads srv' + 1 = unat (opt_thread_num (srv_opts srv))
    \<and> srv_opts srv' = srv_opts srv \<and> srv_router srv' = srv_router srv
    \<and> srv_sessions srv' = srv_sessions srv"
proof -
  have "unat (opt_thread_num (srv_opts srv)) \<noteq> 0"
    using assms(1) by (simp add: server_run_None_iff unat_eq_0)
  with assms show ?thesis by (simp add: server_run_None_iff running_state_def)
qed

definition demo_server :: "(ref_message, nat) http_server_impl" where
  "demo_server = new_HttpServerImpl (default_options\<lparr>opt_thread_num := 8\<rparr>)"

lemma demo_run: "server_run good_net demo_server = (None, running_state demo_server)"
  by (simp add: server_run_None_iff good_net_def demo_server_def new_HttpServerImpl_def
      default_options_def)

theorem server_run_state_witness:
  "srv_threads (running_state demo_server) + 1 = 8 \<and> srv_acceptor_open (running_state demo_server)"
  using server_run_state [OF demo_run]
  by (simp add: demo_server_def new_HttpServerImpl_def default_options_def)

text \<open>
  C19. When \<open>bind\<close> (or a later call) fails, \<open>run\<close> throws with the acceptor left open and the
  \<open>io_context\<close> restarted; since opening an open acceptor fails, every further \<open>run\<close> then
  fails too, whatever the network would allow, until \<open>stop\<close> is called. After \<open>stop\<close> a \<open>run\<close>
  with working network calls succeeds.
\<close>

theorem failed_bind_blocks_run:
  assumes valid: "opt_thread_num (srv_opts srv) \<noteq> 0" "opt_max_request_size (srv_opts srv) \<noteq> 0"
      "opt_addr (srv_opts srv) \<noteq> []"
    and closed: "\<not> srv_acceptor_open srv"
    and net: "net_address_ok net" "net_open net False = Success" "net_reuse_address net = Success"
      "net_linger net = Success" "net_bind net \<noteq> Success"
    and failed: "server_run net srv = (e, srv1)"
    and reopen: "net_open net' True \<noteq> Success"
    and good: "net_address_ok net'" "net_open net' False = Success"
      "net_reuse_address net' = Success" "net_linger net' = Success" "net_bind net' = Success"
      "net_listen net' = Success"
  shows "e = Some (System_Error (net_bind net)) \<and> srv_acceptor_open srv1
    \<and> fst (server_run net' srv1) = Some (System_Error (net_open net' True))
    \<and> fst (server_run net' (server_stop srv1)) = None"
proof -
  have srv1: "e = Some (System_Error (net_bind net))"
      "srv1 = srv\<lparr>srv_s_id := 0, srv_statistics := zero_statistics, srv_io_stopped := False,
         srv_acceptor_open := True\<rparr>"
    using failed valid closed net by (simp_all add: server_run_def Let_def reset_eq)
  have "fst (server_run net' srv1) = Some (System_Error (net_open net' True))"
    using valid good reopen by (simp add: srv1 server_run_def Let_def reset_eq)
  moreover have "\<exists>s. server_run net' (server_stop srv1) = (None, s)"
    using valid good by (simp add: server_run_None_iff srv1 server_stop_def Let_def)
  ultimately show ?thesis using srv1 by force
qed

theorem failed_bind_blocks_run_witness:
  "\<exists>e srv1. server_run (good_net\<lparr>net_bind := Other_Error ''in use''\<rparr>) demo_server = (e, srv1)
     \<and> srv_acceptor_open srv1
     \<and> fst (server_run good_net srv1) = Some (System_Error (Other_Error ''Already open''))
     \<and> fst (server_run good_net (server_stop srv1)) = None"
proof -
  obtain e srv1 where run:
    "server_run (good_net\<lparr>net_bind := Other_Error ''in use''\<rparr>) demo_server = (e, srv1)"
    by (cases "server_run (good_net\<lparr>net_bind := Other_Error ''in use''\<rparr>) demo_server") auto
  from failed_bind_blocks_run [OF _ _ _ _ _ _ _ _ _ run, of good_net] run show ?thesis
    by (auto simp: good_net_def demo_server_def new_HttpServerImpl_def default_options_def)
qed

subsection \<open>The counters of a running server\<close>

text \<open>
  The invariant of a server in its first run: the core with no session left over from an
  earlier run, session numbers that count up, and one outstanding accept.
\<close>

definition server_inv :: "'m boost \<Rightarrow> ('m, 'h) http_server_impl \<Rightarrow> bool" where
  "server_inv B srv \<longleftrightarrow> server_core B 0 srv \<and> srv_s_id srv = of_nat (srv_next srv)
     \<and> srv_accepts srv = 1
     \<and> (\<forall>a s. srv_sessions srv a = Some s \<longrightarrow> ses_id s = of_nat (a + 1))"

lemma server_inv_started: "server_started srv \<Longrightarrow> server_inv B srv"
  by (auto simp: server_started_def server_run_None_iff running_state_def new_HttpServerImpl_def
      server_inv_def server_core_def zero_statistics_def)

lemma server_inv_step:
  assumes inv: "server_inv B srv" and laws: "response_laws B" and reply: "one_reply handle"
    and step: "server_step B handle srv srv'"
  shows "server_inv B srv'"
proof -
  have core: "server_core B 0 srv'"
    using server_core_step [OF _ laws reply step] inv by (simp add: server_inv_def)
  from step show ?thesis
  proof cases
    case (accept_completed ec)
    show ?thesis
    proof (cases "ec = Success")
      case True
      then show ?thesis
        using inv core accept_completed
        by (auto simp: server_inv_def onAccept_new [OF refl]) (simp add: start_simps)
    next
      case False
      then show ?thesis
        using inv core accept_completed by (simp add: server_inv_def onAccept_def doAccept_def)
    qed
  next
    case (session_moved s a w)
    then have "ses_id (sw_session w) = of_nat (a + 1)"
      using session_step_id [OF session_moved(4)] inv by (simp add: server_inv_def session_world_of_def)
    then show ?thesis
      using inv core session_moved by (auto simp: server_inv_def put_session_def)
  qed
qed

interpretation server: invariant_system "server_started" "server_step B handle"
    "\<lambda>srv. response_laws B \<longrightarrow> one_reply handle \<longrightarrow> server_inv B srv"
  for B :: "'m boost" and handle :: "'h \<Rightarrow> http_request \<Rightarrow> handle_outcome"
  by unfold_locales (blast intro: server_inv_started server_inv_step)+

text \<open>
  C20. In every state a server reaches in its first run, with handlers that answer at most once,
  the statistics it hands out are right: the session count is the number of live sessions
  (modulo its 32 bits), every request read successfully has been counted as handled and no
  handler is counted as working between callbacks; exactly one accept is outstanding; every
  live session has exactly one operation outstanding or answer owed; and as long as fewer
  than 2 to the 64 connections were accepted, no two live sessions have the same number.
\<close>

theorem server_statistics_exact:
  assumes "reach server_started (server_step B handle) srv"
    and "response_laws B" and "one_reply handle" and "st = getHttpStatistics srv"
  shows "finite (dom (srv_sessions srv))
    \<and> hs_session_cnt st = of_nat (card (dom (srv_sessions srv)))
    \<and> hs_handler_request_cnt st = hs_read_success_cnt st \<and> hs_working_handler_cnt st = 0
    \<and> srv_accepts srv = 1
    \<and> (\<forall>a s. srv_sessions srv a = Some s \<longrightarrow> length (ses_pending s) + ses_writers s = 1)
    \<and> (srv_next srv < 2 ^ 64 \<longrightarrow>
         (\<forall>a b s t. srv_sessions srv a = Some s \<longrightarrow> srv_sessions srv b = Some t \<longrightarrow>
            ses_id s = ses_id t \<longrightarrow> a = b))"
proof -
  from server.reach_inv [OF assms(1)] assms(2,3) have inv: "server_inv B srv" by blast
  then have core: "server_core B 0 srv" by (simp add: server_inv_def)
  have fin: "finite (dom (srv_sessions srv))" by (rule server_core_finite [OF core])
  have one: "length (ses_pending s) + ses_writers s = 1" if "srv_sessions srv a = Some s" for a s
    using core that by (intro live_core_one) (auto simp: server_core_def)
  have "a = b" if "srv_next srv < 2 ^ 64" "srv_sessions srv a = Some s" "srv_sessions srv b = Some t"
    "ses_id s = ses_id t" for a b s t
  proof -
    from inv core that have "a < srv_next srv" "b < srv_next srv"
      and "(of_nat (a + 1) :: u64) = of_nat (b + 1)"
      by (auto simp: server_inv_def server_core_def)
    then have "(of_nat a :: u64) = of_nat b" by simp
    then have "unat (of_nat a :: u64) = unat (of_nat b :: u64)" by simp
    with \<open>a < srv_next srv\<close> \<open>b < srv_next srv\<close> that(1) show ?thesis
      by (simp add: unat_of_nat_u64)
  qed
  with fin one inv show ?thesis
    by (auto simp: server_inv_def server_core_def assms(4) getHttpStatistics_def Let_def)
qed

text \<open>The server of the witnesses after it has accepted one connection.\<close>

definition demo_connected :: "(ref_message, nat) http_server_impl" where
  "demo_connected = onAccept ref_boost Success
     ((running_state demo_server)\<lparr>srv_accepts := srv_accepts (running_state demo_server) - 1\<rparr>)"

lemma demo_started: "server_started (running_state demo_server)"
  using demo_run router_wf_new
  by (auto simp: server_started_def demo_server_def new_HttpServerImpl_def)

lemma demo_connects: "server_step ref_boost handle (running_state demo_server) demo_connected"
  unfolding demo_connected_def
  by (rule server_step.accept_completed) (simp_all add: running_state_def)

lemma demo_connected_reachable:
  "reach server_started (server_step ref_boost silent_handler) demo_connected"
  by (rule reach_step, rule reach_start, rule demo_started, rule demo_connects)

lemma demo_connected_session:
  "srv_sessions demo_connected =
     [0 \<mapsto> sw_session (session_run (srv_opts demo_server)
            (new_HttpSession ref_boost (srv_opts demo_server) 1 zero_statistics))]"
  "srv_opts demo_connected = srv_opts demo_server"
  "srv_router demo_connected = new_HttpRouter"
  by (simp_all add: demo_connected_def server_simps Let_def
      running_state_def start_simps demo_server_def
      new_HttpServerImpl_def)

theorem server_statistics_exact_witness:
  "hs_session_cnt (getHttpStatistics demo_connected) = 1"
  using server_statistics_exact [OF demo_connected_reachable ref_response_laws one_reply_silent refl]
  by (simp add: demo_connected_session)

subsection \<open>Stopping and running again\<close>

text \<open>
  \<open>stop\<close> leaves the \<open>io_context\<close> stopped, the acceptor closed and, if the server was
  running, no thread in the pool; stopping again changes nothing; and after it the only
  sessions that can still move are those whose handler kept the writer.
\<close>

theorem server_stop_effect:
  "srv_io_stopped (server_stop srv) \<and> \<not> srv_acceptor_open (server_stop srv)
   \<and> (\<not> srv_io_stopped srv \<longrightarrow> srv_threads (server_stop srv) = 0)
   \<and> server_stop (server_stop srv) = server_stop srv
   \<and> srv_sessions (server_stop srv) = srv_sessions srv
   \<and> (server_step B handle (server_stop srv) srv' \<longrightarrow>
       (\<exists>a s. srv_sessions srv a = Some s \<and> 0 < ses_writers s))"
proof -
  have "\<exists>a s. srv_sessions srv a = Some s \<and> 0 < ses_writers s"
    if "server_step B handle (server_stop srv) srv'"
    using that by cases (auto simp: server_stop_def Let_def split: if_splits)
  then show ?thesis by (auto simp: server_stop_def Let_def)
qed

theorem server_stop_effect_witness:
  "srv_threads (server_stop (running_state demo_server)) = 0"
  using server_stop_effect [of "running_state demo_server" ref_boost silent_handler demo_server]
  by (simp add: running_state_def)

text \<open>
  Sessions outlive \<open>stop\<close>: their outstanding operations stay with the \<open>io_context\<close> and
  complete in the next run, but \<open>run\<close> resets the counters. So when the server is stopped and
  run again while a session waits for a request, and that read then times out, the session
  count goes from zero to 2 to the 32 minus 1.
\<close>

theorem restart_session_count_wraps:
  assumes session: "srv_sessions srv a = Some s" "ses_pending s = [Async_Read]" "ses_writers s = 0"
    and rerun: "server_run net (server_stop srv) = (None, srv1)"
  shows "hs_session_cnt (getHttpStatistics srv1) = 0
    \<and> (\<exists>srv2. server_step B handle srv1 srv2 \<and> srv_sessions srv2 a = None
         \<and> hs_session_cnt (getHttpStatistics srv2) = 0xFFFFFFFF)"
proof -
  have srv1: "srv_sessions srv1 = srv_sessions srv" "srv_statistics srv1 = zero_statistics"
    "\<not> srv_io_stopped srv1"
    using rerun by (auto simp: server_run_None_iff running_state_def server_stop_def Let_def)
  let ?w = "doClose (upd_stats (\<lambda>t. t\<lparr>read_timeout_cnt := read_timeout_cnt t + 1\<rparr>)
      (read_world B Timeout empty_request (session_world_of srv1 s)))"
  have "session_step B (srv_opts srv1) (srv_router srv1) handle (session_world_of srv1 s) ?w"
    by (rule session_step.read_completed [where ec = Timeout and msg = empty_request and now = 0])
      (simp_all add: session session_world_of_def onRead_def)
  then have "server_step B handle srv1 (put_session a ?w srv1)"
    using srv1 session by (intro server_step.session_moved [where s = s]) auto
  moreover have "put_session a ?w srv1 =
      srv1\<lparr>srv_sessions := (srv_sessions srv1)(a := None),
           srv_statistics := sw_stats (delete_HttpSession ?w)\<rparr>"
    using session by (simp add: put_session_def session_world_of_def)
  ultimately show ?thesis
    using srv1
    by (auto simp: getHttpStatistics_def Let_def delete_HttpSession_def session_world_of_def
        zero_statistics_def intro!: exI [where x = "put_session a ?w srv1"])
qed

theorem restart_session_count_wraps_witness:
  "\<exists>srv1 srv2. server_run good_net (server_stop demo_connected) = (None, srv1)
     \<and> server_step ref_boost silent_handler srv1 srv2
     \<and> hs_session_cnt (getHttpStatistics srv2) = 0xFFFFFFFF"
proof -
  have "server_run good_net (server_stop demo_connected) =
      (None, running_state (server_stop demo_connected))"
    by (simp add: server_run_None_iff good_net_def server_stop_def Let_def demo_connected_session)
      (simp add: demo_server_def new_HttpServerImpl_def default_options_def)
  with restart_session_count_wraps [where srv = demo_connected and a = 0 and net = good_net
      and s = "sw_session (session_run (srv_opts demo_server)
            (new_HttpSession ref_boost (srv_opts demo_server) 1 zero_statistics))"
      and B = ref_boost and handle = silent_handler]
  show ?thesis
    by (auto simp: demo_connected_session start_simps)
qed

text \<open>Stopping and running again, a number of times.\<close>

fun restarts :: "net_results \<Rightarrow> nat \<Rightarrow> ('m, 'h) http_server_impl \<Rightarrow> ('m, 'h) http_server_impl option" where
  "restarts net 0 srv = Some srv"
| "restarts net (Suc n) srv =
     (case server_run net (server_stop srv) of
        (None, srv') \<Rightarrow> restarts net n srv' | (Some e, _) \<Rightarrow> None)"

text \<open>
  Each stop/run cycle adds one outstanding accept to those of the earlier runs, which complete
  with an error after \<open>stop\<close> and are issued again by \<open>onAccept\<close>; no live session is lost.
\<close>

theorem restarts_accumulate_accepts:
  assumes "restarts net n srv = Some srv'"
  shows "srv_accepts srv' = srv_accepts srv + n \<and> srv_sessions srv' = srv_sessions srv
    \<and> (0 < srv_accepts srv' \<longrightarrow>
         srv_accepts (onAccept B (Other_Error msg) (srv'\<lparr>srv_accepts := srv_accepts srv' - 1\<rparr>))
           = srv_accepts srv')"
proof -
  have "srv_accepts srv' = srv_accepts srv + n \<and> srv_sessions srv' = srv_sessions srv"
    using assms
  proof (induction n arbitrary: srv)
    case (Suc n)
    then obtain s1 where s1: "server_run net (server_stop srv) = (None, s1)"
      "restarts net n s1 = Some srv'"
      by (auto split: prod.splits option.splits)
    from s1(1) have "srv_accepts s1 = srv_accepts srv + 1" "srv_sessions s1 = srv_sessions srv"
      by (auto simp: server_run_None_iff running_state_def server_stop_def Let_def)
    with Suc.IH [OF s1(2)] show ?case by simp
  qed simp
  then show ?thesis by (simp add: server_simps)
qed

theorem restarts_accumulate_accepts_witness:
  "\<exists>srv'. restarts good_net 2 demo_connected = Some srv' \<and> srv_accepts srv' = 3"
proof -
  have run: "server_run good_net (server_stop srv) = (None, running_state (server_stop srv))"
    if "srv_opts srv = srv_opts demo_server" for srv :: "(ref_message, nat) http_server_impl"
    using that by (simp add: server_run_None_iff good_net_def server_stop_def Let_def)
      (simp add: demo_server_def new_HttpServerImpl_def default_options_def)
  have opts: "srv_opts (running_state srv) = srv_opts srv" "srv_opts (server_stop srv) = srv_opts srv"
    for srv :: "(ref_message, nat) http_server_impl"
    by (simp_all add: running_state_def server_stop_def Let_def)
  have "\<exists>srv'. restarts good_net 2 demo_connected = Some srv'"
    by (simp add: numeral_2_eq_2 run demo_connected_session opts)
  then obtain srv' where r: "restarts good_net 2 demo_connected = Some srv'" ..
  have "srv_accepts demo_connected = 1"
    by (simp add: demo_connected_def server_simps Let_def
        running_state_def demo_server_def new_HttpServerImpl_def)
  with restarts_accumulate_accepts [OF r] r show ?thesis by auto
qed

end
