(* ===== verification/Http_Server_Life.thy ===== *)
theory Http_Server_Life
  imports Http_Server_Props
begin

section \<open>The life of a server over several runs\<close>

text \<open>
  A server object from its construction on, with any sequence of registrations while it is
  stopped, runs (successful or not), stops and events. Two ghost fields record what the
  code does not: how many sessions were alive when the counters were last reset, and how
  many runs entered the event loop.
\<close>

subsection \<open>Steps\<close>

record ('m, 'h) server_life =
  life_server :: "('m, 'h) http_server_impl"
  life_carried :: nat
  life_runs :: nat

definition valid_options :: "http_server_options \<Rightarrow> bool" where
  "valid_options opts \<longleftrightarrow>
     opt_thread_num opts \<noteq> 0 \<and> opt_max_request_size opts \<noteq> 0 \<and> opt_addr opts \<noteq> []"

definition life_start :: "('m, 'h) server_life \<Rightarrow> bool" where
  "life_start l \<longleftrightarrow> (\<exists>opts. l = \<lparr>life_server = new_HttpServerImpl opts, life_carried = 0, life_runs = 0\<rparr>)"

inductive life_step ::
    "'m boost \<Rightarrow> ('h \<Rightarrow> http_request \<Rightarrow> handle_outcome)
       \<Rightarrow> ('m, 'h) server_life \<Rightarrow> ('m, 'h) server_life \<Rightarrow> bool"
  for B :: "'m boost" and handle :: "'h \<Rightarrow> http_request \<Rightarrow> handle_outcome" where
  life_event:
    "server_step B handle (life_server l) srv \<Longrightarrow> life_step B handle l (l\<lparr>life_server := srv\<rparr>)"
| life_registered:
    "srv_io_stopped (life_server l) \<Longrightarrow> registerHandler B path h (life_server l) = Inr srv \<Longrightarrow>
     life_step B handle l (l\<lparr>life_server := srv\<rparr>)"
| life_run:
    "server_run net (life_server l) = (e, srv) \<Longrightarrow>
     life_step B handle l
       \<lparr>life_server = srv,
        life_carried = (if valid_options (srv_opts (life_server l))
                        then card (dom (srv_sessions (life_server l))) else life_carried l),
        life_runs = (if e = None then life_runs l + 1 else life_runs l)\<rparr>"
| life_stop:
    "life_step B handle l (l\<lparr>life_server := server_stop (life_server l)\<rparr>)"

inductive_cases life_stepE: "life_step B handle l l'"

subsection \<open>What each step keeps\<close>

lemma server_run_effect:
  assumes "server_run net srv = (e, srv')"
  shows "srv_sessions srv' = srv_sessions srv \<and> srv_opts srv' = srv_opts srv
    \<and> srv_router srv' = srv_router srv \<and> srv_next srv' = srv_next srv
    \<and> srv_statistics srv' =
        (if valid_options (srv_opts srv) then zero_statistics else srv_statistics srv)
    \<and> srv_accepts srv' = srv_accepts srv + (if e = None then 1 else 0)"
  using assms
  by (auto simp: server_run_def Let_def reset_eq spawn_threads_eq doAccept_def valid_options_def
      split: if_splits)

lemma registerHandler_wf:
  assumes "router_wf (srv_router srv)" and "registerHandler B path h srv = Inr srv'"
  shows "\<exists>r. srv' = srv\<lparr>srv_router := r\<rparr> \<and> router_wf r"
  using assms tree.registerD(1)
  by (fastforce simp: registerHandler_def router_insert_def split: sum.splits option.splits if_splits)

lemma server_step_accepts:
  "server_step B handle srv srv' \<Longrightarrow> srv_accepts srv' = srv_accepts srv"
  by (induction rule: server_step.induct) (auto simp: server_simps Let_def)

definition life_inv :: "'m boost \<Rightarrow> ('m, 'h) server_life \<Rightarrow> bool" where
  "life_inv B l \<longleftrightarrow> server_core B (life_carried l) (life_server l)
     \<and> srv_accepts (life_server l) = life_runs l"

lemma life_inv_start: "life_start l \<Longrightarrow> life_inv B l"
  by (auto simp: life_start_def life_inv_def server_core_def new_HttpServerImpl_def
      zero_statistics_def router_wf_new)

lemma life_inv_step:
  assumes inv: "life_inv B l" and laws: "response_laws B" and reply: "one_reply handle"
    and step: "life_step B handle l l'"
  shows "life_inv B l'"
  using step
proof (rule life_stepE)
  fix srv assume "l' = l\<lparr>life_server := srv\<rparr>" "server_step B handle (life_server l) srv"
  with inv show ?thesis
    using server_core_step [OF _ laws reply] server_step_accepts [of B handle "life_server l" srv]
    by (auto simp: life_inv_def)
next
  fix path h srv
  assume "l' = l\<lparr>life_server := srv\<rparr>" "registerHandler B path h (life_server l) = Inr srv"
  moreover from this inv obtain r where "srv = (life_server l)\<lparr>srv_router := r\<rparr>" "router_wf r"
    unfolding life_inv_def server_core_def by (metis registerHandler_wf)
  ultimately show ?thesis using inv by (simp add: life_inv_def server_core_def)
next
  fix net e srv
  assume "l' = \<lparr>life_server = srv,
        life_carried = (if valid_options (srv_opts (life_server l))
                        then card (dom (srv_sessions (life_server l))) else life_carried l),
        life_runs = (if e = None then life_runs l + 1 else life_runs l)\<rparr>"
    and run: "server_run net (life_server l) = (e, srv)"
  with inv server_run_effect [OF run] show ?thesis
    by (auto simp: life_inv_def server_core_def zero_statistics_def)
next
  assume "l' = l\<lparr>life_server := server_stop (life_server l)\<rparr>"
  with inv show ?thesis by (auto simp: life_inv_def server_core_def server_stop_def Let_def)
qed

interpretation life: invariant_system "life_start" "life_step B handle"
    "\<lambda>l. response_laws B \<longrightarrow> one_reply handle \<longrightarrow> life_inv B l"
  for B :: "'m boost" and handle :: "'h \<Rightarrow> http_request \<Rightarrow> handle_outcome"
  by unfold_locales (blast intro: life_inv_start life_inv_step)+

text \<open>
  C35. Over the whole life of a server, however it is run, stopped, run again, fails to run and
  gets handlers registered: the router stays well-formed, every live session has exactly one
  operation outstanding or answer owed, every request read has been handled, and one
  accept is outstanding for each run that entered the event loop. The session count is the
  number of live sessions less those that were alive when the counters were last reset, in
  32 bits; so it is exact as long as no session outlived a run.
\<close>

theorem lifecycle_statistics:
  assumes "reach life_start (life_step B handle) l" and "response_laws B" and "one_reply handle"
    and "srv = life_server l" and "st = getHttpStatistics srv"
  shows "hs_session_cnt st = of_nat (card (dom (srv_sessions srv))) - of_nat (life_carried l)
    \<and> hs_handler_request_cnt st = hs_read_success_cnt st \<and> hs_working_handler_cnt st = 0
    \<and> srv_accepts srv = life_runs l \<and> router_wf (srv_router srv)
    \<and> finite (dom (srv_sessions srv))
    \<and> (\<forall>a s. srv_sessions srv a = Some s \<longrightarrow> length (ses_pending s) + ses_writers s = 1)"
proof -
  from life.reach_inv [OF assms(1)] assms(2,3)
  have core: "server_core B (life_carried l) srv" and "srv_accepts srv = life_runs l"
    by (auto simp: life_inv_def assms(4))
  moreover note server_core_finite [OF core]
  moreover have "length (ses_pending s) + ses_writers s = 1" if "srv_sessions srv a = Some s" for a s
    using core that by (intro live_core_one) (auto simp: server_core_def)
  ultimately show ?thesis
    by (auto simp: server_core_def assms(5) getHttpStatistics_def Let_def)
qed

theorem lifecycle_statistics_witness:
  "\<exists>l. reach life_start (life_step ref_boost silent_handler) l
     \<and> dom (srv_sessions (life_server l)) = {0} \<and> life_carried l = 1
     \<and> hs_session_cnt (getHttpStatistics (life_server l)) = 0 \<and> srv_accepts (life_server l) = 2"
proof -
  let ?reach = "reach life_start (life_step ref_boost silent_handler)"
  let ?l0 = "\<lparr>life_server = demo_server, life_carried = 0, life_runs = 0\<rparr>"
  let ?l1 = "\<lparr>life_server = running_state demo_server, life_carried = 0, life_runs = 1\<rparr>"
  let ?l3 = "\<lparr>life_server = server_stop demo_connected, life_carried = 0, life_runs = 1\<rparr>"
  let ?l4 = "\<lparr>life_server = running_state (server_stop demo_connected), life_carried = 1, life_runs = 2\<rparr>"
  have opts: "valid_options (srv_opts demo_server)" "srv_sessions demo_server = Map.empty"
    by (simp_all add: demo_server_def new_HttpServerImpl_def default_options_def valid_options_def)
  have "?reach ?l0" by (rule reach_start) (auto simp: life_start_def demo_server_def)
  moreover have "life_step ref_boost silent_handler ?l0 ?l1"
    using life_step.life_run [of good_net ?l0 None "running_state demo_server" ref_boost silent_handler]
    by (simp add: demo_run opts)
  moreover have "life_step ref_boost silent_handler ?l1 (?l1\<lparr>life_server := demo_connected\<rparr>)"
    using life_step.life_event [of ref_boost silent_handler ?l1 demo_connected] demo_connects by simp
  moreover have "life_step ref_boost silent_handler (?l1\<lparr>life_server := demo_connected\<rparr>) ?l3"
    using life_step.life_stop [of ref_boost silent_handler "?l1\<lparr>life_server := demo_connected\<rparr>"] by simp
  moreover have "life_step ref_boost silent_handler ?l3 ?l4"
  proof -
    have "server_run good_net (server_stop demo_connected) = (None, running_state (server_stop demo_connected))"
      by (simp add: server_run_None_iff good_net_def server_stop_def Let_def demo_connected_session)
        (simp add: demo_server_def new_HttpServerImpl_def default_options_def)
    moreover have "srv_sessions (server_stop demo_connected) = srv_sessions demo_connected"
      "srv_opts (server_stop demo_connected) = srv_opts demo_connected"
      by (simp_all add: server_stop_def Let_def)
    ultimately show ?thesis
      using life_step.life_run [of good_net ?l3 None "running_state (server_stop demo_connected)" ref_boost silent_handler]
      by (simp add: opts demo_connected_session numeral_2_eq_2)
  qed
  ultimately have r: "?reach ?l4" by (blast intro: reach_step)
  have "srv_sessions (running_state (server_stop demo_connected)) = srv_sessions demo_connected"
    by (simp add: running_state_def server_stop_def Let_def)
  then have d: "dom (srv_sessions (life_server ?l4)) = {0}" by (simp add: demo_connected_session)
  from lifecycle_statistics [OF r ref_response_laws one_reply_silent refl refl] d r show ?thesis
    by (intro exI [where x = ?l4]) simp
qed

end
