(* ===== verification/Http_Server_Owner.thy ===== *)
theory Http_Server_Owner
  imports Http_Server_Life
begin

section \<open>Who owns the server: the destructors\<close>

text \<open>
  \<open>HttpServer\<close> objects (they can be copied) share one \<open>HttpServerImpl\<close>, and so does every
  outstanding accept: \<open>doAccept\<close> binds \<open>shared_from_this()\<close> into its completion handler, which
  the \<open>io_context\<close> keeps until it has run, and the \<open>io_context\<close> is itself a member of the
  \<open>HttpServerImpl\<close>. The implementation is destroyed when its last owner is gone.
\<close>

subsection \<open>Destructors\<close>

text \<open>
  The members go in the reverse order of their declaration: a pool that still has threads
  ends the program (\<open>None\<close>; \<open>stop\<close> joins and removes them), the acceptor is closed, the
  \<open>io_context\<close> drops its outstanding handlers, with them the accepts and the sessions no writer
  keeps, and the router deletes its tree.
\<close>

definition handler_owned :: "(nat \<rightharpoonup> 'm http_session) \<Rightarrow> nat set" where
  "handler_owned m = {a. \<exists>s. m a = Some s \<and> ses_writers s = 0}"

definition delete_HttpServerImpl :: "('m, 'h) http_server_impl \<Rightarrow> ('m, 'h) http_server_impl option" where
  "delete_HttpServerImpl srv =
     (if srv_threads srv \<noteq> 0 then None
      else let ended = handler_owned (srv_sessions srv);
               srv = srv\<lparr>srv_acceptor_open := False, srv_accepts := 0,
                 srv_sessions := srv_sessions srv |` (- ended),
                 srv_statistics := (srv_statistics srv)
                   \<lparr>session_cnt := session_cnt (srv_statistics srv) - of_nat (card ended)\<rparr>\<rparr>
           in map_option (\<lambda>r. srv\<lparr>srv_router := r\<rparr>) (delete_HttpRouter (srv_router srv)))"

text \<open>\<open>own_end\<close> is the result of the implementation's destructor, once it has run.\<close>

record ('m, 'h) owned_server =
  own_life :: "('m, 'h) server_life"
  own_handles :: nat
  own_end :: "('m, 'h) http_server_impl option option"

abbreviation own_server :: "('m, 'h) owned_server \<Rightarrow> ('m, 'h) http_server_impl" where
  "own_server ob \<equiv> life_server (own_life ob)"

definition impl_owners :: "('m, 'h) owned_server \<Rightarrow> nat" where
  "impl_owners ob = own_handles ob + srv_accepts (own_server ob)"

definition copy_HttpServer :: "('m, 'h) owned_server \<Rightarrow> ('m, 'h) owned_server" where
  "copy_HttpServer ob = ob\<lparr>own_handles := own_handles ob + 1\<rparr>"

definition delete_HttpServer :: "('m, 'h) owned_server \<Rightarrow> ('m, 'h) owned_server" where
  "delete_HttpServer ob =
     (let ob = ob\<lparr>own_handles := own_handles ob - 1\<rparr>
      in if impl_owners ob = 0 then ob\<lparr>own_end := Some (delete_HttpServerImpl (own_server ob))\<rparr> else ob)"

subsection \<open>Steps\<close>

text \<open>
  Operations go through an \<open>HttpServer\<close> object; events happen as long as the implementation is
  there.
\<close>

inductive owner_step ::
    "'m boost \<Rightarrow> ('h \<Rightarrow> http_request \<Rightarrow> handle_outcome)
       \<Rightarrow> ('m, 'h) owned_server \<Rightarrow> ('m, 'h) owned_server \<Rightarrow> bool"
  for B :: "'m boost" and handle :: "'h \<Rightarrow> http_request \<Rightarrow> handle_outcome" where
  owner_calls:
    "0 < own_handles ob \<Longrightarrow> life_step B handle (own_life ob) l \<Longrightarrow>
     owner_step B handle ob (ob\<lparr>own_life := l\<rparr>)"
| owner_event:
    "own_end ob = None \<Longrightarrow> server_step B handle (own_server ob) srv \<Longrightarrow>
     owner_step B handle ob (ob\<lparr>own_life := (own_life ob)\<lparr>life_server := srv\<rparr>\<rparr>)"
| owner_copies: "0 < own_handles ob \<Longrightarrow> owner_step B handle ob (copy_HttpServer ob)"
| owner_deletes: "0 < own_handles ob \<Longrightarrow> owner_step B handle ob (delete_HttpServer ob)"

definition owner_start :: "('m, 'h) owned_server \<Rightarrow> bool" where
  "owner_start ob \<longleftrightarrow> life_start (own_life ob) \<and> own_handles ob = 1 \<and> own_end ob = None"

subsection \<open>Invariant\<close>

text \<open>A server that never entered the event loop has neither threads nor sessions.\<close>

definition unused :: "('m, 'h) server_life \<Rightarrow> bool" where
  "unused l \<longleftrightarrow> srv_threads (life_server l) = 0 \<and> srv_sessions (life_server l) = Map.empty"

definition life_own :: "('m, 'h) server_life \<Rightarrow> bool" where
  "life_own l \<longleftrightarrow> srv_accepts (life_server l) = life_runs l \<and> router_wf (srv_router (life_server l))
     \<and> root (srv_router (life_server l)) \<noteq> 0 \<and> (life_runs l = 0 \<longrightarrow> unused l)"

lemma new_root: "0 < root new_HttpRouter"
  by (simp add: new_HttpRouter_def new_HttpPathNode_def)

lemma life_own_start: "life_start l \<Longrightarrow> life_own l"
  by (auto simp: life_start_def life_own_def unused_def new_HttpServerImpl_def router_wf_new new_root)

lemma server_run_threads: "server_run net srv = (Some e, srv') \<Longrightarrow> srv_threads srv' = srv_threads srv"
  by (auto simp: server_run_def Let_def reset_eq spawn_threads_eq doAccept_def split: if_splits)

lemma server_step_router:
  "server_step B handle srv srv' \<Longrightarrow> srv_router srv' = srv_router srv \<and> srv_threads srv' = srv_threads srv
     \<and> (srv_sessions srv' = Map.empty \<or> srv_sessions srv \<noteq> Map.empty \<or> 0 < srv_accepts srv)"
  by (induction rule: server_step.induct) (auto simp: server_simps Let_def)

lemma registerHandler_root:
  "registerHandler B path h srv = Inr srv' \<Longrightarrow> root (srv_router srv') = root (srv_router srv)"
  by (auto simp: registerHandler_def router_insert_def dest!: insert_segments_root
      split: sum.splits option.splits if_splits)

lemma life_own_event:
  assumes "life_own l" and "server_step B handle (life_server l) srv"
  shows "life_own (l\<lparr>life_server := srv\<rparr>)"
  using assms(1) server_step_router [OF assms(2)] server_step_accepts [OF assms(2)]
  by (auto simp: life_own_def unused_def)

lemma life_own_step:
  assumes own: "life_own l" and step: "life_step B handle l l'"
  shows "life_own l'"
  using step
proof (rule life_stepE)
  fix srv assume "l' = l\<lparr>life_server := srv\<rparr>" "server_step B handle (life_server l) srv"
  then show ?thesis using life_own_event [OF own] by simp
next
  fix path h srv
  assume l': "l' = l\<lparr>life_server := srv\<rparr>" and reg: "registerHandler B path h (life_server l) = Inr srv"
  from own obtain r where "srv = (life_server l)\<lparr>srv_router := r\<rparr>" "router_wf r"
    unfolding life_own_def using registerHandler_wf [OF _ reg] by blast
  then show ?thesis using own registerHandler_root [OF reg] l' by (simp add: life_own_def unused_def)
next
  fix net e srv
  assume l': "l' = \<lparr>life_server = srv,
        life_carried = (if valid_options (srv_opts (life_server l))
                        then card (dom (srv_sessions (life_server l))) else life_carried l),
        life_runs = (if e = None then life_runs l + 1 else life_runs l)\<rparr>"
    and run: "server_run net (life_server l) = (e, srv)"
  show ?thesis
  proof (cases e)
    case None
    then show ?thesis using own l' server_run_effect [OF run] by (simp add: life_own_def)
  next
    case (Some x)
    with own l' server_run_effect [OF run] server_run_threads [of net "life_server l" x srv] run
    show ?thesis by (simp add: life_own_def unused_def)
  qed
next
  assume "l' = l\<lparr>life_server := server_stop (life_server l)\<rparr>"
  with own show ?thesis by (auto simp: life_own_def unused_def server_stop_def Let_def)
qed

definition owner_inv :: "('m, 'h) owned_server \<Rightarrow> bool" where
  "owner_inv ob \<longleftrightarrow> life_own (own_life ob) \<and> (own_end ob = None \<longleftrightarrow> 0 < impl_owners ob)
     \<and> (\<forall>r. own_end ob = Some r \<longrightarrow> r = delete_HttpServerImpl (own_server ob))"

lemma owner_inv_start: "owner_start ob \<Longrightarrow> owner_inv ob"
  by (auto simp: owner_start_def owner_inv_def impl_owners_def life_own_start)

lemma owner_inv_step:
  assumes inv: "owner_inv ob" and step: "owner_step B handle ob ob'"
  shows "owner_inv ob'"
  using step
proof cases
  case (owner_calls l)
  with inv show ?thesis
    using life_own_step [of "own_life ob" B handle l] by (auto simp: owner_inv_def impl_owners_def)
next
  case (owner_event srv)
  with inv show ?thesis
    using life_own_event [of "own_life ob" B handle srv] server_step_accepts [of B handle "own_server ob" srv]
    by (auto simp: owner_inv_def impl_owners_def)
next
  case owner_copies
  with inv show ?thesis by (auto simp: owner_inv_def impl_owners_def copy_HttpServer_def)
next
  case owner_deletes
  with inv show ?thesis by (auto simp: owner_inv_def impl_owners_def delete_HttpServer_def Let_def)
qed

interpretation owner: invariant_system owner_start "owner_step B handle" owner_inv
  for B :: "'m boost" and handle :: "'h \<Rightarrow> http_request \<Rightarrow> handle_outcome"
  by unfold_locales (auto intro: owner_inv_start owner_inv_step)

lemma delete_unused:
  assumes "life_own l" and "life_runs l = 0"
  shows "\<exists>srv. delete_HttpServerImpl (life_server l) = Some srv \<and> heap (srv_router srv) = Map.empty
    \<and> srv_sessions srv = Map.empty"
  using assms delete_HttpRouter_ok [of "srv_router (life_server l)"]
  by (auto simp: life_own_def unused_def delete_HttpServerImpl_def Let_def)

text \<open>
  C21. When the server is destroyed. As long as an \<open>HttpServer\<close> object exists the implementation
  does too. A server that never entered the event loop, even if it was registered with, failed
  to run and was stopped, is destroyed with its last \<open>HttpServer\<close> object, and every node of its
  router is freed. But once a run has entered the event loop, the implementation is never
  destroyed, not even after \<open>stop\<close> and after the last \<open>HttpServer\<close> object is gone: the
  accept outstanding since then keeps it alive from within its own \<open>io_context\<close>, so the router,
  the sockets and the sessions leak.
\<close>

theorem run_server_never_destroyed:
  assumes "reach owner_start (owner_step B handle) ob"
  shows "(0 < own_handles ob \<longrightarrow> own_end ob = None)
    \<and> (0 < life_runs (own_life ob) \<longrightarrow> own_end ob = None \<and> 0 < srv_accepts (own_server ob))
    \<and> (life_runs (own_life ob) = 0 \<and> own_handles ob = 0 \<longrightarrow>
        (\<exists>srv. own_end ob = Some (Some srv) \<and> heap (srv_router srv) = Map.empty
           \<and> srv_sessions srv = Map.empty))"
proof -
  have inv: "owner_inv ob" by (rule owner.reach_inv [OF assms])
  then have own: "life_own (own_life ob)" by (simp add: owner_inv_def)
  with inv show ?thesis
    using delete_unused [OF own] by (auto simp: owner_inv_def impl_owners_def life_own_def)
qed

theorem run_server_never_destroyed_witness:
  "\<exists>ob. reach owner_start (owner_step ref_boost silent_handler) ob \<and> own_handles ob = 0
     \<and> srv_io_stopped (own_server ob) \<and> own_end ob = None"
proof -
  let ?reach = "reach owner_start (owner_step ref_boost silent_handler)"
  let ?l0 = "\<lparr>life_server = demo_server, life_carried = 0, life_runs = 0\<rparr>"
  let ?l1 = "\<lparr>life_server = running_state demo_server, life_carried = 0, life_runs = 1\<rparr>"
  let ?l2 = "?l1\<lparr>life_server := server_stop (running_state demo_server)\<rparr>"
  let ?o = "\<lambda>l. \<lparr>own_life = l, own_handles = 1, own_end = None\<rparr>"
  have calls: "?reach (?o l')" if "?reach (?o l)" "life_step ref_boost silent_handler l l'" for l l'
    using owner_step.owner_calls [of "?o l" ref_boost silent_handler l'] that(2)
    by (intro reach_step [OF that(1)]) simp
  have "valid_options (srv_opts demo_server)" "srv_sessions demo_server = Map.empty"
    by (simp_all add: demo_server_def new_HttpServerImpl_def default_options_def valid_options_def)
  then have run: "life_step ref_boost silent_handler ?l0 ?l1"
    using life_step.life_run [of good_net ?l0 None "running_state demo_server" ref_boost silent_handler]
    by (simp add: demo_run)
  have stop: "life_step ref_boost silent_handler ?l1 ?l2"
    using life_step.life_stop [of ref_boost silent_handler ?l1] by simp
  have "?reach (?o ?l0)" by (rule reach_start) (auto simp: owner_start_def life_start_def demo_server_def)
  from calls [OF calls [OF this run] stop] have "?reach (?o ?l2)" .
  moreover have "owner_step ref_boost silent_handler (?o ?l2) (delete_HttpServer (?o ?l2))"
    by (rule owner_step.owner_deletes) simp
  ultimately have r: "?reach (delete_HttpServer (?o ?l2))" by (rule reach_step)
  have runs: "0 < life_runs (own_life (delete_HttpServer (?o ?l2)))"
    "own_handles (delete_HttpServer (?o ?l2)) = 0"
    "srv_io_stopped (own_server (delete_HttpServer (?o ?l2)))"
    by (simp_all add: delete_HttpServer_def Let_def server_stop_def running_state_def)
  with run_server_never_destroyed [OF r] r show ?thesis by blast
qed

end
