(* ===== verification/Http_Process.thy ===== *)
theory Http_Process
  imports Http_Server_Life
begin

section \<open>Several servers in one process\<close>

text \<open>
  The session counter \<open>HttpSession::s_id\<close> is a static member: all servers of a process draw their
  session numbers from it, and every \<open>run\<close> sets it back to zero. Here a process holds any
  number of servers and the one counter; an operation of a server runs with the counter put
  into the server's state and takes it out afterwards.
\<close>

subsection \<open>Processes\<close>

text \<open>
  Two ghost fields: the connections accepted since the counter was last set to zero, and
  whether no session was alive in the process then.
\<close>

record ('m, 'h) process =
  pr_servers :: "nat \<rightharpoonup> ('m, 'h) http_server_impl"
  pr_s_id :: u64
  pr_accepted :: nat
  pr_clean :: bool

definition attach :: "('m, 'h) process \<Rightarrow> ('m, 'h) http_server_impl \<Rightarrow> ('m, 'h) http_server_impl" where
  "attach p srv = srv\<lparr>srv_s_id := pr_s_id p\<rparr>"

definition detach :: "nat \<Rightarrow> ('m, 'h) http_server_impl \<Rightarrow> ('m, 'h) process \<Rightarrow> ('m, 'h) process" where
  "detach k srv p = p\<lparr>pr_servers := (pr_servers p)(k \<mapsto> srv), pr_s_id := srv_s_id srv\<rparr>"

definition live :: "('m, 'h) process \<Rightarrow> nat \<Rightarrow> nat \<Rightarrow> 'm http_session \<Rightarrow> bool" where
  "live p k a s \<longleftrightarrow> (\<exists>srv. pr_servers p k = Some srv \<and> srv_sessions srv a = Some s)"

definition no_session :: "('m, 'h) process \<Rightarrow> bool" where
  "no_session p \<longleftrightarrow> (\<forall>k a s. \<not> live p k a s)"

definition process_run ::
    "nat \<Rightarrow> net_results \<Rightarrow> ('m, 'h) process \<Rightarrow> (server_error option \<times> ('m, 'h) process) option" where
  "process_run k net p =
     (case pr_servers p k of None \<Rightarrow> None
      | Some srv \<Rightarrow>
          (case server_run net (attach p srv) of (e, srv') \<Rightarrow>
             Some (e, if valid_options (srv_opts srv)
                      then (detach k srv' p)\<lparr>pr_accepted := 0, pr_clean := no_session p\<rparr>
                      else detach k srv' p)))"

inductive process_step ::
    "'m boost \<Rightarrow> ('h \<Rightarrow> http_request \<Rightarrow> handle_outcome) \<Rightarrow> ('m, 'h) process \<Rightarrow> ('m, 'h) process \<Rightarrow> bool"
  for B :: "'m boost" and handle :: "'h \<Rightarrow> http_request \<Rightarrow> handle_outcome" where
  process_new:
    "pr_servers p k = None \<Longrightarrow>
     process_step B handle p (p\<lparr>pr_servers := (pr_servers p)(k \<mapsto> new_HttpServerImpl opts)\<rparr>)"
| process_runs: "process_run k net p = Some (e, p') \<Longrightarrow> process_step B handle p p'"
| process_stops:
    "pr_servers p k = Some srv \<Longrightarrow>
     process_step B handle p (detach k (server_stop (attach p srv)) p)"
| process_registers:
    "pr_servers p k = Some srv \<Longrightarrow> registerHandler B path h (attach p srv) = Inr srv' \<Longrightarrow>
     process_step B handle p (detach k srv' p)"
| process_event:
    "pr_servers p k = Some srv \<Longrightarrow> server_step B handle (attach p srv) srv' \<Longrightarrow>
     process_step B handle p
       ((detach k srv' p)\<lparr>pr_accepted := pr_accepted p + (srv_next srv' - srv_next srv)\<rparr>)"

definition process_start :: "('m, 'h) process \<Rightarrow> bool" where
  "process_start p \<longleftrightarrow> p = \<lparr>pr_servers = Map.empty, pr_s_id = 0, pr_accepted = 0, pr_clean = True\<rparr>"

subsection \<open>What an operation does to sessions and counter\<close>

lemma server_run_counter:
  "server_run net srv = (e, srv') \<Longrightarrow>
     srv_s_id srv' = (if valid_options (srv_opts srv) then 0 else srv_s_id srv)"
  by (auto simp: server_run_def Let_def reset_eq spawn_threads_eq doAccept_def valid_options_def
      split: if_splits)

lemma registerHandler_keeps:
  "registerHandler B path h srv = Inr srv' \<Longrightarrow>
     srv_sessions srv' = srv_sessions srv \<and> srv_next srv' = srv_next srv \<and> srv_s_id srv' = srv_s_id srv"
  by (auto simp: registerHandler_def split: sum.splits)

text \<open>An event numbers a new session with the next number, or moves a session that keeps its number.\<close>

lemma server_step_sessions:
  assumes "server_step B handle srv srv'"
  obtains (accepted) s where "srv_sessions srv' = (srv_sessions srv)(srv_next srv \<mapsto> s)"
      "ses_id s = srv_s_id srv + 1" "srv_s_id srv' = srv_s_id srv + 1" "srv_next srv' = srv_next srv + 1"
  | (refused) "srv_sessions srv' = srv_sessions srv" "srv_s_id srv' = srv_s_id srv" "srv_next srv' = srv_next srv"
  | (moved) a s s' where "srv_sessions srv a = Some s" "srv_sessions srv' = (srv_sessions srv)(a \<mapsto> s')"
      "ses_id s' = ses_id s" "srv_s_id srv' = srv_s_id srv" "srv_next srv' = srv_next srv"
  | (ended) a where "srv_sessions srv' = (srv_sessions srv)(a := None)"
      "srv_s_id srv' = srv_s_id srv" "srv_next srv' = srv_next srv"
  using assms
proof cases
  case (accept_completed ec)
  show ?thesis
  proof (cases "ec = Success")
    case True
    show ?thesis
      by (rule accepted) (simp_all add: accept_completed(1) True onAccept_new [OF refl], simp add: start_simps)
  next
    case False
    then show ?thesis using accept_completed by (intro refused) (simp_all add: onAccept_def doAccept_def)
  qed
next
  case (session_moved s a w)
  have "ses_id (sw_session w) = ses_id s"
    using session_step_id [OF session_moved(4)] by (simp add: session_world_of_def)
  with session_moved show ?thesis
    by (cases "ses_pending (sw_session w) = [] \<and> ses_writers (sw_session w) = 0")
      (auto simp: put_session_def intro: moved ended)
qed

subsection \<open>Invariant\<close>

definition addressed :: "('m, 'h) process \<Rightarrow> bool" where
  "addressed p \<longleftrightarrow> (\<forall>k srv. pr_servers p k = Some srv \<longrightarrow> dom (srv_sessions srv) \<subseteq> {..<srv_next srv})"

definition numbered :: "('m, 'h) process \<Rightarrow> bool" where
  "numbered p \<longleftrightarrow>
     (\<forall>k a s. live p k a s \<longrightarrow> 0 < unat (ses_id s) \<and> unat (ses_id s) \<le> pr_accepted p)
     \<and> (\<forall>k a s k' a' s'. live p k a s \<longrightarrow> live p k' a' s' \<longrightarrow> ses_id s = ses_id s' \<longrightarrow> k = k' \<and> a = a')"

definition process_inv :: "('m, 'h) process \<Rightarrow> bool" where
  "process_inv p \<longleftrightarrow> addressed p \<and> pr_s_id p = of_nat (pr_accepted p)
     \<and> (pr_clean p \<longrightarrow> pr_accepted p < 2 ^ 64 \<longrightarrow> numbered p)"

lemma detach_sels [simp]:
  "pr_s_id (detach k srv p) = srv_s_id srv" "pr_accepted (detach k srv p) = pr_accepted p"
  "pr_clean (detach k srv p) = pr_clean p" "pr_servers (detach k srv p) = (pr_servers p)(k \<mapsto> srv)"
  by (simp_all add: detach_def)

lemma live_detach:
  "live (detach k srv p) j a s \<longleftrightarrow> (if j = k then srv_sessions srv a = Some s else live p j a s)"
  by (simp add: live_def)

lemma live_ghost [simp]:
  "live (p\<lparr>pr_accepted := n\<rparr>) = live p" "live (p\<lparr>pr_clean := b\<rparr>) = live p" "live (p\<lparr>pr_s_id := i\<rparr>) = live p"
  by (simp_all add: live_def fun_eq_iff)

lemma attach_sels [simp]:
  "srv_sessions (attach p srv) = srv_sessions srv" "srv_next (attach p srv) = srv_next srv"
  "srv_s_id (attach p srv) = pr_s_id p" "srv_opts (attach p srv) = srv_opts srv"
  by (simp_all add: attach_def)

lemma attach_same: "srv_s_id srv = pr_s_id p \<Longrightarrow> attach p srv = srv"
  by (simp add: attach_def)

text \<open>An operation that adds no session, keeps the numbers of those that stay, and the counter.\<close>

lemma process_inv_keep:
  assumes inv: "process_inv p" and srv: "pr_servers p k = Some srv"
    and "srv_next srv' = srv_next srv" "srv_s_id srv' = pr_s_id p"
    and old: "\<And>a s'. srv_sessions srv' a = Some s' \<Longrightarrow> \<exists>s. srv_sessions srv a = Some s \<and> ses_id s = ses_id s'"
  shows "process_inv (detach k srv' p)"
proof -
  have from_old: "\<exists>s. live p j a s \<and> ses_id s = ses_id s'" if "live (detach k srv' p) j a s'" for j a s'
    using that old srv by (auto simp: live_detach live_def split: if_splits)
  have "addressed (detach k srv' p)"
    using inv srv assms(3) old by (fastforce simp: process_inv_def addressed_def)
  moreover have "numbered (detach k srv' p)" if "numbered p"
    unfolding numbered_def
  proof (intro conjI allI impI)
    fix j a s assume "live (detach k srv' p) j a s"
    then obtain t where "live p j a t" "ses_id t = ses_id s" using from_old by blast
    moreover from this that have "0 < unat (ses_id t) \<and> unat (ses_id t) \<le> pr_accepted p"
      unfolding numbered_def by blast
    ultimately show "0 < unat (ses_id s)" "unat (ses_id s) \<le> pr_accepted (detach k srv' p)" by simp_all
  next
    fix j a s j' a' s'
    assume "live (detach k srv' p) j a s" "live (detach k srv' p) j' a' s'" "ses_id s = ses_id s'"
    then obtain t t' where "live p j a t" "live p j' a' t'" "ses_id t = ses_id t'"
      using from_old by metis
    with that show "j = j'" "a = a'" unfolding numbered_def by blast+
  qed
  ultimately show ?thesis using inv assms(4) by (auto simp: process_inv_def)
qed

lemma process_inv_accept:
  assumes inv: "process_inv p" and srv: "pr_servers p k = Some srv"
    and new: "srv_sessions srv' = (srv_sessions srv)(srv_next srv \<mapsto> s)" "ses_id s = pr_s_id p + 1"
      "srv_s_id srv' = pr_s_id p + 1" "srv_next srv' = srv_next srv + 1"
  shows "process_inv ((detach k srv' p)\<lparr>pr_accepted := pr_accepted p + 1\<rparr>)"
proof -
  let ?p = "(detach k srv' p)\<lparr>pr_accepted := pr_accepted p + 1\<rparr>"
  have "addressed ?p" using inv srv new by (fastforce simp: process_inv_def addressed_def)
  moreover have "numbered ?p" if small: "pr_accepted p + 1 < 2 ^ 64" and num: "numbered p"
  proof -
    have "ses_id s = of_nat (pr_accepted p + 1)" using inv new(2) by (simp add: process_inv_def)
    then have id: "unat (ses_id s) = pr_accepted p + 1" using unat_of_nat_u64 [OF small] by (simp only:)
    have cases: "(j, a, t) = (k, srv_next srv, s) \<or> live p j a t" if "live ?p j a t" for j a t
      using that srv new(1) by (auto simp: live_detach live_def split: if_splits)
    have old: "0 < unat (ses_id t) \<and> unat (ses_id t) \<le> pr_accepted p" if "live p j a t" for j a t
      using num that by (auto simp: numbered_def)
    show ?thesis
      unfolding numbered_def
    proof (intro conjI allI impI)
      fix j a t assume "live ?p j a t"
      then show "0 < unat (ses_id t)" "unat (ses_id t) \<le> pr_accepted ?p"
        using cases [of j a t] old [of j a t] id by auto
    next
      fix j a t j' a' t'
      assume l: "live ?p j a t" "live ?p j' a' t'" and eq: "ses_id t = ses_id t'"
      have new: "ses_id u \<noteq> ses_id s" if "live p i b u" for i b u using old [OF that] id by auto
      have "(j, a) = (j', a')"
      proof (cases "(j, a, t) = (k, srv_next srv, s)")
        case True
        then show ?thesis using cases [OF l(2)] new eq by auto
      next
        case False
        then have "live p j a t" using cases [OF l(1)] by blast
        moreover from this have "live p j' a' t'" using cases [OF l(2)] new eq by auto
        ultimately show ?thesis using num eq unfolding numbered_def by blast
      qed
      then show "j = j'" "a = a'" by simp_all
    qed
  qed
  ultimately show ?thesis using inv new(3) by (simp add: process_inv_def)
qed

lemma process_inv_start: "process_start p \<Longrightarrow> process_inv p"
  by (auto simp: process_start_def process_inv_def addressed_def numbered_def live_def)

lemma process_inv_run:
  assumes inv: "process_inv p" and run: "process_run k net p = Some (e, p')"
  shows "process_inv p'"
proof -
  obtain srv srv' where srv: "pr_servers p k = Some srv" and r: "server_run net (attach p srv) = (e, srv')"
    and p': "p' = (if valid_options (srv_opts srv)
                   then (detach k srv' p)\<lparr>pr_accepted := 0, pr_clean := no_session p\<rparr> else detach k srv' p)"
    using run by (auto simp: process_run_def split: option.splits prod.splits)
  have eff: "srv_sessions srv' = srv_sessions srv" "srv_next srv' = srv_next srv"
    using server_run_effect [OF r] by simp_all
  show ?thesis
  proof (cases "valid_options (srv_opts srv)")
    case True
    have same: "live (detach k srv' p) = live p"
      using eff srv by (auto simp: fun_eq_iff live_detach live_def)
    have "addressed (detach k srv' p)"
      using inv srv eff by (fastforce simp: process_inv_def addressed_def)
    with True show ?thesis
      using server_run_counter [OF r] same
      by (auto simp: p' process_inv_def addressed_def numbered_def no_session_def)
  next
    case False
    with p' eff server_run_counter [OF r] show ?thesis
      by (auto intro: process_inv_keep [OF inv srv])
  qed
qed

lemma process_inv_step:
  assumes inv: "process_inv p" and step: "process_step B handle p p'"
  shows "process_inv p'"
  using step
proof cases
  case (process_new k opts)
  then have "live p' = live p"
    by (auto simp: fun_eq_iff live_def new_HttpServerImpl_def)
  with inv process_new show ?thesis
    by (auto simp: process_inv_def addressed_def numbered_def new_HttpServerImpl_def)
next
  case (process_runs k net e)
  then show ?thesis using process_inv_run [OF inv] by blast
next
  case (process_stops k srv)
  then show ?thesis
    by (auto simp: server_stop_def Let_def intro!: process_inv_keep [OF inv])
next
  case (process_registers k srv path h srv')
  then show ?thesis
    using registerHandler_keeps [of B path h "attach p srv" srv'] by (auto intro!: process_inv_keep [OF inv])
next
  case (process_event k srv srv')
  have same: "(detach k srv' p)\<lparr>pr_accepted := pr_accepted p\<rparr> = detach k srv' p" by (simp add: detach_def)
  from process_event(3) show ?thesis
  proof (cases rule: server_step_sessions)
    case (accepted s)
    then show ?thesis using process_inv_accept [OF inv process_event(2)] process_event(1) by simp
  next
    case refused
    then show ?thesis using process_event same by (auto intro!: process_inv_keep [OF inv])
  next
    case (moved a s s')
    then show ?thesis using process_event same
      by (auto intro!: process_inv_keep [OF inv] split: if_splits)
  next
    case (ended a)
    then show ?thesis using process_event same
      by (auto intro!: process_inv_keep [OF inv] split: if_splits)
  qed
qed

interpretation process: invariant_system process_start "process_step B handle" process_inv
  for B :: "'m boost" and handle :: "'h \<Rightarrow> http_request \<Rightarrow> handle_outcome"
  by unfold_locales (auto intro: process_inv_start process_inv_step)

subsection \<open>Session numbers\<close>

text \<open>What accepting a connection adds, whatever the counter is.\<close>

lemma process_accepts:
  assumes "pr_servers p j = Some srv" "\<not> srv_io_stopped srv" "0 < srv_accepts srv" "addressed p"
  shows "\<exists>p' s. process_step B handle p p' \<and> live p' j (srv_next srv) s \<and> ses_id s = pr_s_id p + 1
    \<and> (\<forall>k a t. live p k a t \<longrightarrow> live p' k a t)"
proof -
  let ?srv' = "onAccept B Success ((attach p srv)\<lparr>srv_accepts := srv_accepts srv - 1\<rparr>)"
  let ?p' = "(detach j ?srv' p)\<lparr>pr_accepted := pr_accepted p + (srv_next ?srv' - srv_next srv)\<rparr>"
  have step: "server_step B handle (attach p srv) ?srv'"
    using server_step.accept_completed [of "attach p srv" B handle Success] assms(2,3) by (simp add: attach_def)
  have "srv_sessions srv (srv_next srv) = None" using assms(1,4) by (auto simp: addressed_def)
  then have "live ?p' k a t" if "live p k a t" for k a t
    using that assms(1)
    by (auto simp: live_detach live_def onAccept_new [OF refl] split: if_splits)
  moreover obtain s where "srv_sessions ?srv' (srv_next srv) = Some s" "ses_id s = pr_s_id p + 1"
    by (auto simp: onAccept_new [OF refl]) (simp add: start_simps)
  ultimately show ?thesis
    using process_step.process_event [OF assms(1) step]
    by (intro exI [where x = ?p'] exI [where x = s]) (auto simp: live_detach)
qed

text \<open>
  C26. What the session numbers in log lines and requests identify. In a process with any number
  of servers, started, run and stopped in any order, no two live sessions, of the same or of
  different servers, have the same number, as long as no session was alive when a \<open>run\<close> last
  reset the counter and fewer than 2 to the 64 connections were accepted since. But any \<open>run\<close>
  with valid options, of any server and even if it fails later, resets the counter for all of
  them: the next connection accepted by any running server gets the number 1, beside the live
  sessions of earlier numbers.
\<close>

theorem session_numbers_unique:
  assumes "reach process_start (process_step B handle) p"
  shows "(pr_clean p \<and> pr_accepted p < 2 ^ 64 \<longrightarrow>
      (\<forall>k a s k' a' s'. live p k a s \<longrightarrow> live p k' a' s' \<longrightarrow> ses_id s = ses_id s' \<longrightarrow> k = k' \<and> a = a'))
    \<and> (\<forall>k srv net e p1. pr_servers p k = Some srv \<longrightarrow> valid_options (srv_opts srv) \<longrightarrow>
        process_run k net p = Some (e, p1) \<longrightarrow>
        (\<forall>j srv1. pr_servers p1 j = Some srv1 \<longrightarrow> \<not> srv_io_stopped srv1 \<longrightarrow> 0 < srv_accepts srv1 \<longrightarrow>
           (\<exists>p2 s. process_step B handle p1 p2 \<and> live p2 j (srv_next srv1) s \<and> ses_id s = 1
              \<and> (\<forall>k a t. live p k a t \<longrightarrow> live p2 k a t))))"
proof -
  have inv: "process_inv p" by (rule process.reach_inv [OF assms])
  have "\<exists>p2 s. process_step B handle p1 p2 \<and> live p2 j (srv_next srv1) s \<and> ses_id s = 1
      \<and> (\<forall>k a t. live p k a t \<longrightarrow> live p2 k a t)"
    if srv: "pr_servers p k = Some srv" "valid_options (srv_opts srv)" and run: "process_run k net p = Some (e, p1)"
      and srv1: "pr_servers p1 j = Some srv1" "\<not> srv_io_stopped srv1" "0 < srv_accepts srv1"
    for k srv net e p1 j srv1
  proof -
    obtain srv' where r: "server_run net (attach p srv) = (e, srv')"
      and p1: "p1 = (detach k srv' p)\<lparr>pr_accepted := 0, pr_clean := no_session p\<rparr>"
      using run srv by (auto simp: process_run_def split: prod.splits)
    have "srv_sessions srv' = srv_sessions srv" using server_run_effect [OF r] by simp
    then have live: "live p1 = live p"
      using srv(1) by (auto simp: p1 fun_eq_iff live_detach live_def)
    have "pr_s_id p1 = 0" using server_run_counter [OF r] srv(2) by (simp add: p1)
    moreover have "addressed p1" using process_inv_run [OF inv run] by (simp add: process_inv_def)
    ultimately show ?thesis using process_accepts [OF srv1, of B handle] live by simp
  qed
  moreover have "\<forall>k a s k' a' s'. live p k a s \<longrightarrow> live p k' a' s' \<longrightarrow> ses_id s = ses_id s' \<longrightarrow> k = k' \<and> a = a'"
    if "pr_clean p" "pr_accepted p < 2 ^ 64"
    using inv that unfolding process_inv_def numbered_def by blast
  ultimately show ?thesis by blast
qed

text \<open>The witness: a second server run while the first has a session with the number 1.\<close>

theorem session_numbers_unique_witness:
  "\<exists>p p1 p2 s t. reach process_start (process_step ref_boost silent_handler) p
     \<and> process_run 1 good_net p = Some (None, p1) \<and> process_step ref_boost silent_handler p1 p2
     \<and> live p2 0 0 s \<and> live p2 0 1 t \<and> ses_id s = 1 \<and> ses_id t = 1"
proof -
  let ?reach = "reach process_start (process_step ref_boost silent_handler)"
  let ?opts = "default_options\<lparr>opt_thread_num := 8\<rparr>"
  let ?p = "\<lambda>srv. \<lparr>pr_servers = [0 \<mapsto> srv], pr_s_id = srv_s_id srv, pr_accepted = srv_next srv, pr_clean = True\<rparr>"
  have opts: "valid_options (srv_opts demo_server)" "srv_s_id demo_server = 0" "srv_next demo_server = 0"
    "srv_sessions demo_server = Map.empty"
    by (simp_all add: demo_server_def new_HttpServerImpl_def default_options_def valid_options_def)
  have "?reach \<lparr>pr_servers = Map.empty, pr_s_id = 0, pr_accepted = 0, pr_clean = True\<rparr>"
    by (rule reach_start) (simp add: process_start_def)
  moreover have "process_step ref_boost silent_handler
      \<lparr>pr_servers = Map.empty, pr_s_id = 0, pr_accepted = 0, pr_clean = True\<rparr> (?p demo_server)"
    using process_step.process_new [of "\<lparr>pr_servers = Map.empty, pr_s_id = 0, pr_accepted = 0, pr_clean = True\<rparr>" 0
        ref_boost silent_handler ?opts] opts by (simp add: demo_server_def)
  ultimately have r0: "?reach (?p demo_server)" by (rule reach_step)
  have "process_run 0 good_net (?p demo_server) = Some (None, ?p (running_state demo_server))"
    using opts
    by (simp add: process_run_def attach_same demo_run detach_def running_state_def no_session_def live_def)
  then have r1: "?reach (?p (running_state demo_server))"
    by (intro reach_step [OF r0] process_step.process_runs)
  have "process_step ref_boost silent_handler (?p (running_state demo_server)) (?p demo_connected)"
    using process_step.process_event [of "?p (running_state demo_server)" 0 "running_state demo_server"
        ref_boost silent_handler demo_connected] demo_connects [of silent_handler] opts
    by (simp add: attach_same detach_def demo_connected_def onAccept_new [OF refl] running_state_def)
  with r1 have r2: "?reach (?p demo_connected)" by (rule reach_step)
  let ?q = "(?p demo_connected)\<lparr>pr_servers := [0 \<mapsto> demo_connected, 1 \<mapsto> demo_server]\<rparr>"
  have "process_step ref_boost silent_handler (?p demo_connected) ?q"
    using process_step.process_new [of "?p demo_connected" 1 ref_boost silent_handler ?opts]
    by (simp add: demo_server_def fun_upd_twist)
  with r2 have r3: "?reach ?q" by (rule reach_step)
  obtain s where s: "live ?q 0 0 s" "ses_id s = 1"
    by (simp add: live_def demo_connected_session start_simps)
  have "server_run good_net (attach ?q demo_server) = (None, running_state (attach ?q demo_server))"
    by (simp add: server_run_None_iff attach_def good_net_def demo_server_def new_HttpServerImpl_def default_options_def)
  then obtain p1 where run: "process_run 1 good_net ?q = Some (None, p1)" "pr_servers p1 0 = Some demo_connected"
    using opts(1) by (simp add: process_run_def detach_def)
  have conn: "\<not> srv_io_stopped demo_connected" "0 < srv_accepts demo_connected" "srv_next demo_connected = 1"
    using opts by (simp_all add: demo_connected_def onAccept_new [OF refl] running_state_def)
  have "pr_servers ?q 1 = Some demo_server" by simp
  with session_numbers_unique [OF r3] run conn opts(1)
  obtain p2 t where "process_step ref_boost silent_handler p1 p2" "live p2 0 1 t" "ses_id t = 1"
    "\<forall>k a t. live ?q k a t \<longrightarrow> live p2 k a t" by metis
  with r3 run s show ?thesis by blast
qed

end
