(* ===== verification/Http_Log.thy ===== *)
theory Http_Log
  imports Http_Prelude
begin

section \<open>Logging (http\_log.h, http\_log.cpp)\<close>

text \<open>
  The log options with their defaults, the once-only \<open>initLog\<close> with every branch that throws,
  the log level and the level test of the \<open>LOG_LOGGER\<close> macros. The spdlog library is the
  parameter \<open>spdlog\<close>: its operations act on a state of their own, and what \<open>set_level\<close>
  and \<open>get_level\<close> promise is the named hypothesis \<open>spdlog_laws\<close>.
\<close>

subsection \<open>Data\<close>

datatype log_level = Trace | Debug | Info | Warn | Err | Critical | Off | Invalid

primrec log_level_int :: "log_level \<Rightarrow> int" where
  "log_level_int Trace = 0"
| "log_level_int Debug = 1"
| "log_level_int Info = 2"
| "log_level_int Warn = 3"
| "log_level_int Err = 4"
| "log_level_int Critical = 5"
| "log_level_int Off = 6"
| "log_level_int Invalid = 7"

text \<open>\<open>static_cast<LogLevel>\<close> of the level spdlog returns; the values it has are 0 to 7.\<close>

definition log_level_cast :: "int \<Rightarrow> log_level" where
  "log_level_cast i =
     (if i = 0 then Trace else if i = 1 then Debug else if i = 2 then Info else if i = 3 then Warn
      else if i = 4 then Err else if i = 5 then Critical else if i = 6 then Off else Invalid)"

lemma log_level_cast_int [simp]: "log_level_cast (log_level_int l) = l"
  by (cases l) (simp_all add: log_level_cast_def)

text \<open>The comparison of the enumeration, used by the macros, is that of its numbers.\<close>

instantiation log_level :: linorder
begin

definition less_eq_log_level :: "log_level \<Rightarrow> log_level \<Rightarrow> bool" where
  "less_eq_log_level a b \<longleftrightarrow> log_level_int a \<le> log_level_int b"

definition less_log_level :: "log_level \<Rightarrow> log_level \<Rightarrow> bool" where
  "less_log_level a b \<longleftrightarrow> log_level_int a < log_level_int b"

instance
proof
  fix a b :: log_level
  assume "a \<le> b" "b \<le> a"
  then have "log_level_cast (log_level_int a) = log_level_cast (log_level_int b)"
    by (simp add: less_eq_log_level_def)
  then show "a = b" by simp
qed (auto simp: less_eq_log_level_def less_log_level_def)

end

record async_mode_options =
  queue_size :: u64
  thread_count :: u64

record file_mode_options =
  file_name :: string
  file_size :: u64
  files_count :: u64
  file_truncate :: bool

record log_options =
  enable_console_mode :: bool
  enable_file_mode :: bool
  enable_async_mode :: bool
  file_mode_opts :: file_mode_options
  async_mode_opts :: async_mode_options

definition default_log_options :: log_options where
  "default_log_options =
     \<lparr>enable_console_mode = True, enable_file_mode = False, enable_async_mode = False,
      file_mode_opts = \<lparr>file_name = '''', file_size = 0, files_count = 0, file_truncate = False\<rparr>,
      async_mode_opts = \<lparr>queue_size = 10000, thread_count = 1\<rparr>\<rparr>"

record source_loc =
  loc_file_name :: "string option"
  loc_line :: int
  loc_func_name :: "string option"

definition default_log_name :: string where
  "default_log_name = ''http server''"

definition default_log_pattern :: string where
  "default_log_pattern = ''%Y-%m-%dT%H:%M:%S.%e|%L|%t|%n|%v|%s|line#%#|''"

datatype sink = Stdout_Color_Sink | Basic_File_Sink string bool | Rotating_File_Sink string u64 u64

datatype log_error = Log_Failure string | Spdlog_Error string

text \<open>
  The calls of spdlog: \<open>make_sink\<close> and \<open>init_thread_pool\<close> may throw; the state \<open>'w\<close> holds the
  files, the thread pool, the default logger and the level.
\<close>

record 'w spdlog =
  make_sink :: "sink \<Rightarrow> 'w \<Rightarrow> string + 'w"
  init_thread_pool :: "u64 \<Rightarrow> u64 \<Rightarrow> 'w \<Rightarrow> string + 'w"
  set_default_logger :: "bool \<Rightarrow> string \<Rightarrow> sink list \<Rightarrow> 'w \<Rightarrow> 'w"
  set_pattern :: "string \<Rightarrow> 'w \<Rightarrow> 'w"
  set_level :: "int \<Rightarrow> 'w \<Rightarrow> 'w"
  get_level :: "'w \<Rightarrow> int"
  spd_log :: "source_loc \<Rightarrow> int \<Rightarrow> string \<Rightarrow> 'w \<Rightarrow> 'w"

text \<open>
  What is documented: the level set is the level read, and a log call or a change of the
  pattern does not change it.
\<close>

definition spdlog_laws :: "'w spdlog \<Rightarrow> bool" where
  "spdlog_laws S \<longleftrightarrow>
     (\<forall>i w. 0 \<le> i \<longrightarrow> i \<le> 6 \<longrightarrow> get_level S (set_level S i w) = i)
     \<and> (\<forall>p w. get_level S (set_pattern S p w) = get_level S w)
     \<and> (\<forall>loc i m w. get_level S (spd_log S loc i m w) = get_level S w)"

text \<open>
  \<open>init_flag\<close> is the static of the file; \<open>pattern_init\<close> the static \<open>init\<close> of \<open>httpLog\<close>, whose
  initialiser runs at its first call.
\<close>

record 'w log_state =
  init_flag :: bool
  pattern_init :: bool
  spd :: 'w

subsection \<open>Operations\<close>

text \<open>
  \<open>initLog\<close> is written as the sequence of its parts, each ending in an error or in the sinks
  so far and the state of spdlog. What was done before an error stays done.
\<close>

definition push_sink :: "'w spdlog \<Rightarrow> sink \<Rightarrow> sink list \<times> 'w \<Rightarrow> log_error option \<times> sink list \<times> 'w" where
  "push_sink S k = (\<lambda>(sinks, w). case make_sink S k w of
     Inl e \<Rightarrow> (Some (Spdlog_Error e), sinks, w) | Inr w' \<Rightarrow> (None, sinks @ [k], w'))"

definition init_console :: "'w spdlog \<Rightarrow> log_options \<Rightarrow> sink list \<times> 'w \<Rightarrow> log_error option \<times> sink list \<times> 'w" where
  "init_console S opts sw =
     (if enable_console_mode opts then push_sink S Stdout_Color_Sink sw else (None, sw))"

definition init_file :: "'w spdlog \<Rightarrow> log_options \<Rightarrow> sink list \<times> 'w \<Rightarrow> log_error option \<times> sink list \<times> 'w" where
  "init_file S opts sw =
     (let f = file_mode_opts opts in
      if enable_file_mode opts
      then if file_name f = ''''
           then (Some (Log_Failure ''logger filename is empty when file mode enable''), sw)
           else if file_size f = 0 \<or> files_count f = 0
           then push_sink S (Basic_File_Sink (file_name f) (file_truncate f)) sw
           else push_sink S (Rotating_File_Sink (file_name f) (file_size f) (files_count f)) sw
      else (None, sw))"

definition init_logger :: "'w spdlog \<Rightarrow> log_options \<Rightarrow> sink list \<times> 'w \<Rightarrow> log_error option \<times> 'w" where
  "init_logger S opts = (\<lambda>(sinks, w).
     if length sinks = 0 then (Some (Log_Failure ''there is no valid logger sinks''), w)
     else if enable_async_mode opts
     then let a = async_mode_opts opts in
          if queue_size a = 0 \<or> thread_count a = 0
          then (Some (Log_Failure ''logger queue size or thread count is invalid''), w)
          else (case init_thread_pool S (queue_size a) (thread_count a) w of
                  Inl e \<Rightarrow> (Some (Spdlog_Error e), w)
                | Inr w' \<Rightarrow> (None, set_pattern S default_log_pattern
                             (set_default_logger S True default_log_name sinks w')))
     else (None, set_pattern S default_log_pattern
                   (set_default_logger S False default_log_name sinks w)))"

definition initLog :: "'w spdlog \<Rightarrow> log_options \<Rightarrow> 'w log_state \<Rightarrow> log_error option \<times> 'w log_state" where
  "initLog S opts st =
     (if init_flag st
      then (Some (Log_Failure ''logger was already initialized, call the function once at program start (or never)''), st)
      else
        let st = st\<lparr>init_flag := True\<rparr>
        in case init_console S opts ([], spd st) of
             (Some e, _, w) \<Rightarrow> (Some e, st\<lparr>spd := w\<rparr>)
           | (None, sw) \<Rightarrow>
               (case init_file S opts sw of
                  (Some e, _, w) \<Rightarrow> (Some e, st\<lparr>spd := w\<rparr>)
                | (None, sw) \<Rightarrow>
                    (case init_logger S opts sw of (err, w) \<Rightarrow> (err, st\<lparr>spd := w\<rparr>))))"

definition setLogLevel :: "'w spdlog \<Rightarrow> log_level \<Rightarrow> 'w log_state \<Rightarrow> 'w log_state" where
  "setLogLevel S lvl st = st\<lparr>spd := set_level S (log_level_int lvl) (spd st)\<rparr>"

definition getLogLevel :: "'w spdlog \<Rightarrow> 'w log_state \<Rightarrow> log_level" where
  "getLogLevel S st = log_level_cast (get_level S (spd st))"

definition httpLog :: "'w spdlog \<Rightarrow> source_loc \<Rightarrow> log_level \<Rightarrow> string \<Rightarrow> 'w log_state \<Rightarrow> 'w log_state" where
  "httpLog S loc lvl msg st =
     (let st = (if pattern_init st then st
                else st\<lparr>pattern_init := True, spd := set_pattern S default_log_pattern (spd st)\<rparr>)
      in st\<lparr>spd := spd_log S loc (log_level_int lvl) msg (spd st)\<rparr>)"

text \<open>The macros \<open>LOG_LOGGER_TRACE\<close> to \<open>LOG_LOGGER_CRITICAL\<close> differ only in the level.\<close>

definition LOG_LOGGER :: "'w spdlog \<Rightarrow> log_level \<Rightarrow> source_loc \<Rightarrow> string \<Rightarrow> 'w log_state \<Rightarrow> 'w log_state" where
  "LOG_LOGGER S lvl loc msg st =
     (if getLogLevel S st \<le> lvl then httpLog S loc lvl msg st else st)"

subsection \<open>Specification\<close>

text \<open>The sinks the options ask for, and when options are acceptable.\<close>

definition file_sink :: "file_mode_options \<Rightarrow> sink" where
  "file_sink f =
     (if file_size f \<noteq> 0 \<and> files_count f \<noteq> 0
      then Rotating_File_Sink (file_name f) (file_size f) (files_count f)
      else Basic_File_Sink (file_name f) (file_truncate f))"

definition wanted_sinks :: "log_options \<Rightarrow> sink list" where
  "wanted_sinks opts =
     (if enable_console_mode opts then [Stdout_Color_Sink] else [])
     @ (if enable_file_mode opts then [file_sink (file_mode_opts opts)] else [])"

definition valid_log_options :: "log_options \<Rightarrow> bool" where
  "valid_log_options opts \<longleftrightarrow>
     (enable_console_mode opts \<or> enable_file_mode opts)
     \<and> (enable_file_mode opts \<longrightarrow> file_name (file_mode_opts opts) \<noteq> '''')
     \<and> (enable_async_mode opts \<longrightarrow>
          queue_size (async_mode_opts opts) \<noteq> 0 \<and> thread_count (async_mode_opts opts) \<noteq> 0)"

fun make_sinks :: "'w spdlog \<Rightarrow> sink list \<Rightarrow> 'w \<Rightarrow> 'w option" where
  "make_sinks S [] w = Some w"
| "make_sinks S (k # ks) w =
     (case make_sink S k w of Inl e \<Rightarrow> None | Inr w' \<Rightarrow> make_sinks S ks w')"

definition make_pool :: "'w spdlog \<Rightarrow> log_options \<Rightarrow> 'w \<Rightarrow> 'w option" where
  "make_pool S opts w =
     (if enable_async_mode opts
      then case init_thread_pool S (queue_size (async_mode_opts opts))
                  (thread_count (async_mode_opts opts)) w of Inl e \<Rightarrow> None | Inr w' \<Rightarrow> Some w'
      else Some w)"

lemmas init_parts =
  initLog_def init_console_def init_file_def init_logger_def push_sink_def
  valid_log_options_def wanted_sinks_def file_sink_def make_pool_def Let_def

lemma initLog_flag: "init_flag (snd (initLog S opts st))"
  by (auto simp: initLog_def Let_def split: prod.splits option.splits)

lemma initLog_ok_iff:
  "initLog S opts st = (None, st') \<longleftrightarrow>
     \<not> init_flag st \<and> valid_log_options opts
     \<and> (\<exists>w1 w2. make_sinks S (wanted_sinks opts) (spd st) = Some w1
          \<and> make_pool S opts w1 = Some w2
          \<and> st' = st\<lparr>init_flag := True,
                    spd := set_pattern S default_log_pattern
                      (set_default_logger S (enable_async_mode opts) default_log_name
                         (wanted_sinks opts) w2)\<rparr>)"
  by (cases "enable_console_mode opts"; cases "enable_file_mode opts"; cases "enable_async_mode opts")
    (auto simp: init_parts split: sum.splits if_splits)

subsection \<open>Properties\<close>

text \<open>
  C24. \<open>initLog\<close> returns normally exactly when it has not been called before, the options are
  acceptable (some sink enabled, a file name in file mode, a queue and threads in
  asynchronous mode) and spdlog could create every sink and the thread pool; then the
  default logger has exactly the sinks the options ask for, the console first, the file
  sink rotating exactly when both limits are non-zero.
\<close>

theorem initLog_outcome:
  "(\<exists>st'. initLog S opts st = (None, st')) \<longleftrightarrow>
     \<not> init_flag st \<and> valid_log_options opts
     \<and> (\<exists>w1 w2. make_sinks S (wanted_sinks opts) (spd st) = Some w1 \<and> make_pool S opts w1 = Some w2
          \<and> spd (snd (initLog S opts st)) = set_pattern S default_log_pattern
              (set_default_logger S (enable_async_mode opts) default_log_name (wanted_sinks opts) w2))"
  (is "?ok \<longleftrightarrow> ?good")
proof
  assume ?ok
  then obtain st' where "initLog S opts st = (None, st')" ..
  moreover from this have "snd (initLog S opts st) = st'" by simp
  ultimately show ?good by (auto simp: initLog_ok_iff)
qed (auto simp: initLog_ok_iff)

text \<open>A spdlog for the witnesses: the calls made, and the level; file names starting with a
  slash cannot be opened.\<close>

datatype spd_call = Made_Sink sink | Made_Pool u64 u64 | Default_Logger bool string "sink list"
  | Pattern string | Logged int string

record spd_world =
  spd_calls :: "spd_call list"
  spd_level :: int

definition note_call :: "spd_call \<Rightarrow> spd_world \<Rightarrow> spd_world" where
  "note_call c w = w\<lparr>spd_calls := spd_calls w @ [c]\<rparr>"

fun ref_make_sink :: "sink \<Rightarrow> spd_world \<Rightarrow> string + spd_world" where
  "ref_make_sink (Basic_File_Sink (CHR ''/'' # f) t) w = Inl ''cannot open''"
| "ref_make_sink k w = Inr (note_call (Made_Sink k) w)"

definition ref_spdlog :: "spd_world spdlog" where
  "ref_spdlog =
     \<lparr>make_sink = ref_make_sink,
      init_thread_pool = (\<lambda>q t w. if t > 1000 then Inl ''invalid'' else Inr (note_call (Made_Pool q t) w)),
      set_default_logger = (\<lambda>a n ks. note_call (Default_Logger a n ks)),
      set_pattern = (\<lambda>p. note_call (Pattern p)),
      set_level = (\<lambda>i w. w\<lparr>spd_level := i\<rparr>),
      get_level = spd_level,
      spd_log = (\<lambda>loc i m w. if spd_level w \<le> i then note_call (Logged i m) w else w)\<rparr>"

lemma ref_spdlog_laws: "spdlog_laws ref_spdlog"
  by (simp add: spdlog_laws_def ref_spdlog_def note_call_def)

definition ref_log_state :: "spd_world log_state" where
  "ref_log_state = \<lparr>init_flag = False, pattern_init = False, spd = \<lparr>spd_calls = [], spd_level = 2\<rparr>\<rparr>"

text \<open>
  C25. \<open>initLog\<close> can be called once only: after any call, also one that threw because of
  invalid options, the flag is set, and every further call throws the same error and
  changes nothing, even with acceptable options.
\<close>

theorem initLog_once:
  assumes "initLog S opts st = (e, st1)"
  shows "\<exists>msg. \<forall>opts'. initLog S opts' st1 = (Some (Log_Failure msg), st1)"
  using initLog_flag [of S opts st] assms by (simp add: initLog_def)

theorem initLog_once_witness:
  "\<exists>st1 msg. initLog ref_spdlog (default_log_options\<lparr>enable_console_mode := False\<rparr>) ref_log_state
      = (Some (Log_Failure ''there is no valid logger sinks''), st1)
    \<and> initLog ref_spdlog default_log_options st1 = (Some (Log_Failure msg), st1)
    \<and> fst (initLog ref_spdlog default_log_options ref_log_state) = None"
proof -
  let ?bad = "default_log_options\<lparr>enable_console_mode := False\<rparr>"
  obtain st1 where st1: "initLog ref_spdlog ?bad ref_log_state
      = (Some (Log_Failure ''there is no valid logger sinks''), st1)"
    by (simp add: init_parts default_log_options_def ref_log_state_def)
  from initLog_once [OF st1] obtain msg where
    "initLog ref_spdlog default_log_options st1 = (Some (Log_Failure msg), st1)" by blast
  moreover have "fst (initLog ref_spdlog default_log_options ref_log_state) = None"
    by (simp add: init_parts default_log_options_def ref_log_state_def ref_spdlog_def)
  ultimately show ?thesis using st1 by blast
qed

lemma get_set_level:
  assumes "spdlog_laws S" and "lvl \<noteq> Invalid"
  shows "getLogLevel S (setLogLevel S lvl st) = lvl"
proof -
  from \<open>lvl \<noteq> Invalid\<close> have "0 \<le> log_level_int lvl \<and> log_level_int lvl \<le> 6" by (cases lvl) simp_all
  with \<open>spdlog_laws S\<close> have "get_level S (set_level S (log_level_int lvl) w) = log_level_int lvl" for w
    unfolding spdlog_laws_def by blast
  then show ?thesis by (simp add: getLogLevel_def setLogLevel_def)
qed

lemma log_keeps_level:
  assumes "spdlog_laws S"
  shows "getLogLevel S (LOG_LOGGER S lvl loc msg st) = getLogLevel S st"
  using assms by (simp add: spdlog_laws_def LOG_LOGGER_def getLogLevel_def httpLog_def Let_def)

text \<open>
  The level set is the level read, for every level but the invalid one, and it is not
  disturbed by logging; a \<open>LOG_LOGGER\<close> macro reaches spdlog exactly when its level is at or
  above the one set, so none of them does once logging is off.
\<close>

theorem log_level_gate:
  assumes laws: "spdlog_laws S" and "level \<noteq> Invalid" and st: "st = setLogLevel S level st0"
  shows "getLogLevel S st = level
    \<and> getLogLevel S (LOG_LOGGER S lvl loc msg st) = level
    \<and> LOG_LOGGER S lvl loc msg st = (if level \<le> lvl then httpLog S loc lvl msg st else st)
    \<and> (level = Off \<and> lvl \<in> {Trace, Debug, Info, Warn, Err, Critical} \<longrightarrow>
         LOG_LOGGER S lvl loc msg st = st)"
proof -
  have get: "getLogLevel S st = level" unfolding st by (rule get_set_level) fact+
  then have gate: "LOG_LOGGER S lvl loc msg st = (if level \<le> lvl then httpLog S loc lvl msg st else st)"
    by (simp add: LOG_LOGGER_def)
  then have "LOG_LOGGER S lvl loc msg st = st"
    if "level = Off \<and> lvl \<in> {Trace, Debug, Info, Warn, Err, Critical}"
    using that by (auto simp: less_eq_log_level_def)
  moreover have "getLogLevel S (LOG_LOGGER S lvl loc msg st) = level"
    using get log_keeps_level [OF laws] by metis
  ultimately show ?thesis using get gate by blast
qed

theorem log_level_gate_witness:
  "getLogLevel ref_spdlog (setLogLevel ref_spdlog Warn ref_log_state) = Warn
   \<and> LOG_LOGGER ref_spdlog Info \<lparr>loc_file_name = None, loc_line = 0, loc_func_name = None\<rparr> ''m''
       (setLogLevel ref_spdlog Off ref_log_state) = setLogLevel ref_spdlog Off ref_log_state"
  using log_level_gate [OF ref_spdlog_laws _ refl, of Warn ref_log_state]
    log_level_gate [OF ref_spdlog_laws _ refl, of Off ref_log_state Info]
  by (simp add: less_eq_log_level_def)

end
