(* ===== verification/Http_Server_Log.thy ===== *)
theory Http_Server_Log
  imports Http_Server_Props Http_Log
begin

section \<open>What the server logs\<close>

text \<open>
  Every use of the \<open>LOG_LOGGER\<close> macros in the session, the server and the router: which line
  is logged on which branch, in which order, at which level and with which text. The lines
  of a method are a function of the state it is called in, beside the method itself; a
  step of the running server logs the lines of the methods it runs. \<open>fmt::format\<close> is the
  parameter \<open>fmt\<close>, a function of the format string and the arguments; the \<open>SourceLoc\<close> of a macro,
  which the compiler makes of \<open>__FILE__\<close> and \<open>__LINE__\<close>, is the parameter \<open>loc\<close>; and the text of an
  error code is the parameter \<open>message\<close>. The remote address, which is only logged, is part of
  the accept event.
\<close>

subsection \<open>Lines\<close>

datatype (discs_sels) log_event =
    Session_Created u64 string
  | Session_Destroyed u64
  | Session_Closed u64
  | Read_Timed_Out u64 u64
  | Read_Failed u64 u64 string
  | Read_Succeeded u64 u64
  | Write_Timed_Out u64 u64
  | Write_Failed u64 u64 string
  | Keep_Alive_False u64 u64
  | Write_Succeeded u64 u64
  | Parse_Url_Failed u64 u64 string
  | Handler_Not_Found u64 u64
  | Method_Not_Support u64 u64
  | Start_Listen string http_server_options
  | Begin_Stop
  | End_Stop
  | Impl_Destroyed
  | Router_Destroyed

datatype fmt_arg = Fmt_U32 u32 | Fmt_U64 u64 | Fmt_Bool bool | Fmt_String string

text \<open>The level of the macro used.\<close>

fun event_level :: "log_event \<Rightarrow> log_level" where
  "event_level (Write_Timed_Out _ _) = Err"
| "event_level (Write_Failed _ _ _) = Err"
| "event_level (Parse_Url_Failed _ _ _) = Err"
| "event_level (Handler_Not_Found _ _) = Err"
| "event_level (Method_Not_Support _ _) = Err"
| "event_level (Start_Listen _ _) = Info"
| "event_level Begin_Stop = Info"
| "event_level End_Stop = Info"
| "event_level Impl_Destroyed = Info"
| "event_level Router_Destroyed = Info"
| "event_level _ = Trace"

text \<open>The message: the format string with its arguments, or the literal.\<close>

fun event_text :: "(string \<Rightarrow> fmt_arg list \<Rightarrow> string) \<Rightarrow> log_event \<Rightarrow> string" where
  "event_text fmt (Session_Created i remote) =
     fmt ''session[{}] create, remote: {}'' [Fmt_U64 i, Fmt_String remote]"
| "event_text fmt (Session_Destroyed i) = fmt ''session[{}] destroy'' [Fmt_U64 i]"
| "event_text fmt (Session_Closed i) = fmt ''session[{}] closed'' [Fmt_U64 i]"
| "event_text fmt (Read_Timed_Out i r) =
     fmt ''close invalid session[{}], request_id: {}, read fail: timeout'' [Fmt_U64 i, Fmt_U64 r]"
| "event_text fmt (Read_Failed i r msg) =
     fmt ''close invalid session[{}], request_id: {}, read fail: {}'' [Fmt_U64 i, Fmt_U64 r, Fmt_String msg]"
| "event_text fmt (Read_Succeeded i r) =
     fmt ''session[{}] request_id: {}, read success'' [Fmt_U64 i, Fmt_U64 r]"
| "event_text fmt (Write_Timed_Out i r) =
     fmt ''close invalid session[{}], request_id: {}, write fail: timeout'' [Fmt_U64 i, Fmt_U64 r]"
| "event_text fmt (Write_Failed i r msg) =
     fmt ''close invalid session[{}], request_id: {}, write fail: {}'' [Fmt_U64 i, Fmt_U64 r, Fmt_String msg]"
| "event_text fmt (Keep_Alive_False i r) =
     fmt ''session[{}] request_id: {}, keep alive is false, should close'' [Fmt_U64 i, Fmt_U64 r]"
| "event_text fmt (Write_Succeeded i r) =
     fmt ''session[{}] request_id: {}, onWrite success'' [Fmt_U64 i, Fmt_U64 r]"
| "event_text fmt (Parse_Url_Failed i r msg) =
     fmt ''session[{}], request_id: {}, parse url fail: {}'' [Fmt_U64 i, Fmt_U64 r, Fmt_String msg]"
| "event_text fmt (Handler_Not_Found i r) =
     fmt ''session[{}], request_id: {}, handler not found'' [Fmt_U64 i, Fmt_U64 r]"
| "event_text fmt (Method_Not_Support i r) =
     fmt ''session[{}], request_id: {}, method not support'' [Fmt_U64 i, Fmt_U64 r]"
| "event_text fmt (Start_Listen endpoint opts) =
     fmt ''start listen on: {}, thread_num: {}, read_time_out: {}s, write_time_out: {}s, auto_gzip: {}, max_request_size: {}KB auto_decode_url_parameters: {}''
       [Fmt_String endpoint, Fmt_U32 (opt_thread_num opts), Fmt_U64 (opt_read_time_out opts),
        Fmt_U64 (opt_write_time_out opts), Fmt_Bool (opt_auto_gzip opts),
        Fmt_U64 (opt_max_request_size opts div 1024), Fmt_Bool (opt_auto_decode_url_parameters opts)]"
| "event_text fmt Begin_Stop = ''HttpServerImpl begin stop''"
| "event_text fmt End_Stop = ''HttpServerImpl end stop''"
| "event_text fmt Impl_Destroyed = ''HttpServerImpl destroyed''"
| "event_text fmt Router_Destroyed = ''http server router destroyed''"

text \<open>The macro call.\<close>

definition emit ::
    "'w spdlog \<Rightarrow> (string \<Rightarrow> fmt_arg list \<Rightarrow> string) \<Rightarrow> (log_event \<Rightarrow> source_loc) \<Rightarrow> log_event
       \<Rightarrow> 'w log_state \<Rightarrow> 'w log_state" where
  "emit S fmt loc e st = LOG_LOGGER S (event_level e) (loc e) (event_text fmt e) st"

subsection \<open>The lines of each method\<close>

definition new_HttpSession_log :: "string option \<Rightarrow> u64 \<Rightarrow> log_event list" where
  "new_HttpSession_log remote new_id =
     (case remote of None \<Rightarrow> [] | Some r \<Rightarrow> [Session_Created new_id r])"

definition doClose_log :: "'m session_world \<Rightarrow> log_event list" where
  "doClose_log w = (if ses_open (sw_session w) then [Session_Closed (ses_id (sw_session w))] else [])"

definition delete_HttpSession_log :: "'m session_world \<Rightarrow> log_event list" where
  "delete_HttpSession_log w = doClose_log w @ [Session_Destroyed (ses_id (sw_session w))]"

definition processRequest_log ::
    "'m boost \<Rightarrow> 'h http_router \<Rightarrow> 'm session_world \<Rightarrow> log_event list" where
  "processRequest_log B router w =
     (let i = ses_id (sw_session w); r = ses_current_request_id (sw_session w) in
      case parse_target B (ses_request (sw_session w)) of
        Inl e \<Rightarrow> [Parse_Url_Failed i r e]
      | Inr url \<Rightarrow>
          (case search_segments (url_segments url) router of
             None \<Rightarrow> []
           | Some None \<Rightarrow> [Handler_Not_Found i r]
           | Some (Some handler) \<Rightarrow>
               if rq_method (ses_request (sw_session w)) > verb_put B
               then [Method_Not_Support i r] else []))"

definition onRead_log ::
    "(error_code \<Rightarrow> string) \<Rightarrow> 'm boost \<Rightarrow> 'h http_router \<Rightarrow> error_code \<Rightarrow> 'm session_world \<Rightarrow> log_event list" where
  "onRead_log message B router ec w =
     (let i = ses_id (sw_session w); r = ses_current_request_id (sw_session w) in
      if ec = End_Of_Stream then doClose_log w
      else if ec = Timeout then Read_Timed_Out i r # doClose_log w
      else if ec \<noteq> Success then Read_Failed i r (message ec) # doClose_log w
      else Read_Succeeded i r # processRequest_log B router w)"

definition onWrite_log :: "(error_code \<Rightarrow> string) \<Rightarrow> bool \<Rightarrow> error_code \<Rightarrow> 'm session_world \<Rightarrow> log_event list" where
  "onWrite_log message keep_alive ec w =
     (let i = ses_id (sw_session w); r = ses_current_request_id (sw_session w) in
      if ec = Timeout then Write_Timed_Out i r # doClose_log w
      else if ec \<noteq> Success then Write_Failed i r (message ec) # doClose_log w
      else if \<not> keep_alive then Keep_Alive_False i r # doClose_log w
      else [Write_Succeeded i r])"

definition server_run_log :: "net_results \<Rightarrow> string \<Rightarrow> ('m, 'h) http_server_impl \<Rightarrow> log_event list" where
  "server_run_log net endpoint srv =
     (if fst (server_run net srv) = None then [Start_Listen endpoint (srv_opts srv)] else [])"

definition onAccept_log :: "error_code \<Rightarrow> string option \<Rightarrow> ('m, 'h) http_server_impl \<Rightarrow> log_event list" where
  "onAccept_log ec remote srv =
     (if ec = Success then new_HttpSession_log remote (srv_s_id srv + 1) else [])"

text \<open>The destructor that runs when the last owner of a session is gone.\<close>

definition put_session_log :: "'m session_world \<Rightarrow> log_event list" where
  "put_session_log w =
     (if ses_pending (sw_session w) = [] \<and> ses_writers (sw_session w) = 0
      then delete_HttpSession_log w else [])"

text \<open>\<open>stop\<close> when it returns; the destructors of the server and of its router member.\<close>

definition server_stop_log :: "log_event list" where
  "server_stop_log = [Begin_Stop, End_Stop]"

definition delete_HttpRouter_log :: "log_event list" where
  "delete_HttpRouter_log = [Router_Destroyed]"

definition delete_HttpServerImpl_log :: "log_event list" where
  "delete_HttpServerImpl_log = Impl_Destroyed # delete_HttpRouter_log"

subsection \<open>The running server with its log\<close>

text \<open>The steps of a session and of the server, each with the lines it logs.\<close>

inductive session_log_step ::
    "(error_code \<Rightarrow> string) \<Rightarrow> 'm boost \<Rightarrow> http_server_options \<Rightarrow> 'h http_router
       \<Rightarrow> ('h \<Rightarrow> http_request \<Rightarrow> handle_outcome) \<Rightarrow> log_event list
       \<Rightarrow> 'm session_world \<Rightarrow> 'm session_world \<Rightarrow> bool"
  for message :: "error_code \<Rightarrow> string" and B :: "'m boost" and opts :: http_server_options
    and router :: "'h http_router" and handle :: "'h \<Rightarrow> http_request \<Rightarrow> handle_outcome" where
  read_logged:
    "Async_Read \<in> set (ses_pending (sw_session w)) \<Longrightarrow>
     r = read_world B ec msg w \<Longrightarrow>
     onRead B opts router handle now ec r = Some w' \<Longrightarrow>
     session_log_step message B opts router handle (onRead_log message B router ec r) w w'"
| write_logged:
    "Async_Write m keep_alive \<in> set (ses_pending (sw_session w)) \<Longrightarrow>
     r = write_world ec (Async_Write m keep_alive) w \<Longrightarrow>
     session_log_step message B opts router handle (onWrite_log message keep_alive ec r) w
       (onWrite B opts keep_alive ec r)"
| send_logged:
    "0 < ses_writers (sw_session w) \<Longrightarrow>
     session_log_step message B opts router handle [] w
       (writeResponse B opts rsp (upd_session (\<lambda>s. s\<lparr>ses_writers := ses_writers s - 1\<rparr>) w))"
| drop_logged:
    "0 < ses_writers (sw_session w) \<Longrightarrow>
     session_log_step message B opts router handle [] w
       (upd_session (\<lambda>s. s\<lparr>ses_writers := ses_writers s - 1\<rparr>) w)"

record ('m, 'h) logged_server =
  lg_server :: "('m, 'h) http_server_impl"
  lg_lines :: "log_event list"

inductive log_step ::
    "(error_code \<Rightarrow> string) \<Rightarrow> 'm boost \<Rightarrow> ('h \<Rightarrow> http_request \<Rightarrow> handle_outcome)
       \<Rightarrow> ('m, 'h) logged_server \<Rightarrow> ('m, 'h) logged_server \<Rightarrow> bool"
  for message :: "error_code \<Rightarrow> string" and B :: "'m boost"
    and handle :: "'h \<Rightarrow> http_request \<Rightarrow> handle_outcome" where
  accept_logged:
    "srv = lg_server l \<Longrightarrow> \<not> srv_io_stopped srv \<Longrightarrow> 0 < srv_accepts srv \<Longrightarrow>
     log_step message B handle l
       \<lparr>lg_server = onAccept B ec (srv\<lparr>srv_accepts := srv_accepts srv - 1\<rparr>),
        lg_lines = lg_lines l @ onAccept_log ec remote srv\<rparr>"
| session_logged:
    "srv = lg_server l \<Longrightarrow> \<not> srv_io_stopped srv \<or> 0 < ses_writers s \<Longrightarrow> srv_sessions srv a = Some s \<Longrightarrow>
     session_log_step message B (srv_opts srv) (srv_router srv) handle ls (session_world_of srv s) w \<Longrightarrow>
     log_step message B handle l
       \<lparr>lg_server = put_session a w srv, lg_lines = lg_lines l @ ls @ put_session_log w\<rparr>"

text \<open>A server that has just entered the event loop its first time, and logged that.\<close>

definition log_start :: "('m, 'h) logged_server \<Rightarrow> bool" where
  "log_start l \<longleftrightarrow>
     (\<exists>net endpoint opts router srv. router_wf router \<and> srv = (new_HttpServerImpl opts)\<lparr>srv_router := router\<rparr>
        \<and> server_run net srv = (None, lg_server l) \<and> lg_lines l = server_run_log net endpoint srv)"

subsection \<open>The log changes nothing\<close>

lemma session_log_step_sound:
  "session_log_step message B opts router handle ls w w' \<Longrightarrow> session_step B opts router handle w w'"
  by (induction rule: session_log_step.induct) (auto simp del: One_nat_def intro: session_step.intros)

lemma session_log_step_complete:
  "session_step B opts router handle w w' \<Longrightarrow> \<exists>ls. session_log_step message B opts router handle ls w w'"
  by (induction rule: session_step.induct) (blast intro: session_log_step.intros)+

lemma log_step_sound: "log_step message B handle l l' \<Longrightarrow> server_step B handle (lg_server l) (lg_server l')"
  by (induction rule: log_step.induct) (auto simp del: One_nat_def intro: server_step.intros session_log_step_sound)

lemma log_start_server: "log_start l \<Longrightarrow> server_started (lg_server l)"
  by (auto simp: log_start_def server_started_def)

subsection \<open>Lines and counters\<close>

abbreviation occurs :: "(log_event \<Rightarrow> bool) \<Rightarrow> log_event list \<Rightarrow> nat" where
  "occurs P ls \<equiv> length (filter P ls)"

definition is_refusal :: "log_event \<Rightarrow> bool" where
  "is_refusal e \<longleftrightarrow> is_Parse_Url_Failed e \<or> is_Handler_Not_Found e \<or> is_Method_Not_Support e"

text \<open>The counters a session's callbacks change, as far as lines account for them.\<close>

definition counted :: "http_statistics_internal \<Rightarrow> log_event list \<Rightarrow> http_statistics_internal \<Rightarrow> bool" where
  "counted t ls t' \<longleftrightarrow>
     read_timeout_cnt t' = read_timeout_cnt t + of_nat (occurs is_Read_Timed_Out ls)
     \<and> read_fail_cnt t' = read_fail_cnt t + of_nat (occurs is_Read_Failed ls)
     \<and> read_success_cnt t' = read_success_cnt t + of_nat (occurs is_Read_Succeeded ls)
     \<and> write_timeout_cnt t' = write_timeout_cnt t + of_nat (occurs is_Write_Timed_Out ls)
     \<and> write_fail_cnt t' = write_fail_cnt t + of_nat (occurs is_Write_Failed ls)
     \<and> write_success_cnt t' = write_success_cnt t
         + of_nat (occurs (\<lambda>e. is_Write_Succeeded e \<or> is_Keep_Alive_False e) ls)"

lemma counted_append: "counted t ls t' \<Longrightarrow> counted t' ls' t'' \<Longrightarrow> counted t (ls @ ls') t''"
  by (simp add: counted_def)

text \<open>The lines of \<open>doClose\<close> and \<open>processRequest\<close> go with no counter but that of handled requests.\<close>

lemma doClose_log_filter [simp]:
  "filter P (doClose_log w) =
     (if ses_open (sw_session w) \<and> P (Session_Closed (ses_id (sw_session w))) then doClose_log w else [])"
  "length (doClose_log w) = (if ses_open (sw_session w) then 1 else 0)"
  by (simp_all add: doClose_log_def)

lemma processRequest_log_cases:
  obtains "processRequest_log B router w = []"
  | e where "processRequest_log B router w = [e]" "is_refusal e"
  by (cases "processRequest_log B router w = []")
    (auto simp: processRequest_log_def is_refusal_def Let_def split: sum.splits option.splits if_splits)

lemma is_refusal_other:
  "is_refusal e \<Longrightarrow> \<not> is_Read_Timed_Out e \<and> \<not> is_Read_Failed e \<and> \<not> is_Read_Succeeded e
     \<and> \<not> is_Write_Timed_Out e \<and> \<not> is_Write_Failed e \<and> \<not> is_Write_Succeeded e \<and> \<not> is_Keep_Alive_False e
     \<and> \<not> is_Session_Created e \<and> \<not> is_Session_Destroyed e \<and> \<not> is_Session_Closed e \<and> event_level e = Err"
  by (cases e) (simp_all add: is_refusal_def)

lemma processRequest_log_occurs:
  assumes "\<And>e. is_refusal e \<Longrightarrow> \<not> P e"
  shows "occurs P (processRequest_log B router w) = 0"
  by (rule processRequest_log_cases [of B router w]) (auto dest: assms)

text \<open>
  The socket of a session and its lines: a socket that is open before the lines is open after
  them, or has its \<open>closed\<close> line among them, or has been closed by the stream when an operation
  timed out, which is the line of the time-out; a closed socket has none of this to come.
\<close>

abbreviation one_if :: "bool \<Rightarrow> nat" where
  "one_if b \<equiv> (if b then 1 else 0)"

abbreviation timed_out_lines :: "log_event list \<Rightarrow> nat" where
  "timed_out_lines ls \<equiv> occurs (\<lambda>e. is_Read_Timed_Out e \<or> is_Write_Timed_Out e) ls"

definition socket_lines :: "bool \<Rightarrow> log_event list \<Rightarrow> bool \<Rightarrow> bool" where
  "socket_lines before ls after \<longleftrightarrow>
     occurs is_Session_Closed ls + one_if after \<le> one_if before
     \<and> (before \<longrightarrow> occurs is_Session_Closed ls + one_if after + timed_out_lines ls = 1)"

text \<open>One step of a session: the counters move with the lines, and the socket with its line.\<close>

definition log_effect :: "'m session_world \<Rightarrow> log_event list \<Rightarrow> 'm session_world \<Rightarrow> bool" where
  "log_effect w ls w' \<longleftrightarrow>
     counted (sw_stats w) ls (sw_stats w') \<and> session_cnt (sw_stats w') = session_cnt (sw_stats w)
     \<and> occurs is_Session_Destroyed ls = 0
     \<and> occurs is_refusal ls \<le> occurs is_Read_Succeeded ls
     \<and> socket_lines (ses_open (sw_session w)) ls (ses_open (sw_session w'))"

lemma processRequest_log_effect:
  assumes "processRequest B opts router handle now w = Some w'"
  shows "sw_stats w' = (sw_stats w)\<lparr>handle_request_cnt := handle_request_cnt (sw_stats w) + 1\<rparr>
    \<and> ses_open (sw_session w') = ses_open (sw_session w)"
  using assms
  by (cases "sw_stats w")
    (auto simp: processRequest_def dispatch_request_def Let_def session_simps
      split: sum.splits option.splits if_splits)

lemma onRead_log_effect:
  assumes "onRead B opts router handle now ec (read_world B ec msg w) = Some w'"
  shows "log_effect w (onRead_log message B router ec (read_world B ec msg w)) w'"
proof (cases "ec = Success")
  case True
  let ?r = "read_world B ec msg w"
  let ?w = "upd_stats (\<lambda>t. t\<lparr>read_success_cnt := read_success_cnt t + 1\<rparr>) ?r"
  have "processRequest B opts router handle now ?w = Some w'"
    using assms True by (simp add: onRead_def)
  note eff = processRequest_log_effect [OF this]
  have "occurs is_refusal (processRequest_log B router ?r) \<le> 1"
    by (rule processRequest_log_cases [of B router ?r]) auto
  with eff True show ?thesis
    by (simp add: log_effect_def counted_def onRead_log_def Let_def processRequest_log_occurs is_refusal_other
        is_refusal_def [of "Read_Succeeded _ _"] socket_lines_def)
next
  case False
  then show ?thesis
    using assms
    by (auto simp: log_effect_def counted_def onRead_def onRead_log_def Let_def is_refusal_def socket_lines_def
        split: if_splits)
qed

lemma onWrite_log_effect:
  "log_effect w (onWrite_log message keep_alive ec (write_world ec op w))
     (onWrite B opts keep_alive ec (write_world ec op w))"
  by (auto simp: log_effect_def counted_def onWrite_def onWrite_log_def Let_def is_refusal_def doRead_def
      socket_lines_def)

lemma session_log_effect:
  "session_log_step message B opts router handle ls w w' \<Longrightarrow> log_effect w ls w'"
  by (induction rule: session_log_step.induct)
    (simp_all add: onRead_log_effect onWrite_log_effect, simp_all add: log_effect_def counted_def socket_lines_def)

subsection \<open>The log of a first run\<close>

definition open_sessions :: "(nat \<rightharpoonup> 'm http_session) \<Rightarrow> nat set" where
  "open_sessions m = {a. \<exists>s. m a = Some s \<and> ses_open s}"

lemma open_sessions_dom: "open_sessions m \<subseteq> dom m"
  by (auto simp: open_sessions_def)

text \<open>Putting one session into the map.\<close>

lemma open_sessions_with:
  assumes "m a = None" and "finite (dom m)"
  shows "card (open_sessions (m(a \<mapsto> s))) = card (open_sessions m) + (if ses_open s then 1 else 0)"
proof -
  have "open_sessions (m(a \<mapsto> s)) = (if ses_open s then insert a (open_sessions m) else open_sessions m)"
    "a \<notin> open_sessions m"
    using assms(1) by (auto simp: open_sessions_def split: if_splits)
  moreover have "finite (open_sessions m)"
    using finite_subset [OF open_sessions_dom assms(2)] .
  ultimately show ?thesis by simp
qed

definition log_inv :: "('m, 'h) logged_server \<Rightarrow> bool" where
  "log_inv l \<longleftrightarrow> (let srv = lg_server l; ls = lg_lines l in
     counted zero_statistics ls (srv_statistics srv)
     \<and> dom (srv_sessions srv) \<subseteq> {..<srv_next srv}
     \<and> session_cnt (srv_statistics srv) = of_nat (srv_next srv) - of_nat (occurs is_Session_Destroyed ls)
     \<and> occurs is_Session_Destroyed ls + card (dom (srv_sessions srv)) = srv_next srv
     \<and> occurs is_Session_Closed ls + card (open_sessions (srv_sessions srv)) \<le> srv_next srv
     \<and> srv_next srv \<le> occurs is_Session_Closed ls + card (open_sessions (srv_sessions srv)) + timed_out_lines ls
     \<and> occurs is_refusal ls \<le> occurs is_Read_Succeeded ls)"

text \<open>With handlers that answer at most once a session whose socket is closed ends, so the account
  of the sockets is exact.\<close>

definition log_balance :: "('m, 'h) logged_server \<Rightarrow> bool" where
  "log_balance l \<longleftrightarrow>
     occurs is_Session_Closed (lg_lines l) + timed_out_lines (lg_lines l)
       + card (open_sessions (srv_sessions (lg_server l))) = srv_next (lg_server l)"

lemma log_inv_start: "log_start l \<Longrightarrow> log_inv l \<and> log_balance l"
  by (auto simp: log_balance_def log_start_def server_run_log_def server_run_None_iff running_state_def new_HttpServerImpl_def
      log_inv_def counted_def zero_statistics_def open_sessions_def is_refusal_def)

lemma log_inv_accept:
  assumes inv: "log_inv l" and srv: "srv = lg_server l"
  shows "log_inv \<lparr>lg_server = onAccept B ec (srv\<lparr>srv_accepts := n\<rparr>),
      lg_lines = lg_lines l @ onAccept_log ec remote srv\<rparr>"
    and "log_balance l \<Longrightarrow> log_balance \<lparr>lg_server = onAccept B ec (srv\<lparr>srv_accepts := n\<rparr>),
      lg_lines = lg_lines l @ onAccept_log ec remote srv\<rparr>"
proof -
  let ?l = "\<lparr>lg_server = onAccept B ec (srv\<lparr>srv_accepts := n\<rparr>), lg_lines = lg_lines l @ onAccept_log ec remote srv\<rparr>"
  have "log_inv ?l \<and> (log_balance l \<longrightarrow> log_balance ?l)"
proof (cases "ec = Success")
  case False
  then show ?thesis
    using inv by (simp add: log_inv_def log_balance_def Let_def srv onAccept_log_def onAccept_def doAccept_def)
next
  case True
  let ?m = "srv_sessions srv" and ?a = "srv_next srv"
  let ?s = "sw_session (session_run (srv_opts srv)
    (new_HttpSession B (srv_opts srv) (srv_s_id srv + 1) (srv_statistics srv)))"
  have new: "?m ?a = None" and fin: "finite (dom ?m)"
    using inv by (auto simp: log_inv_def Let_def srv intro: finite_subset)
  have "card (open_sessions (?m(?a \<mapsto> ?s))) = card (open_sessions ?m) + 1"
    using open_sessions_with [OF new fin, of ?s] by (simp add: start_simps)
  moreover have "card (insert ?a (dom ?m)) = card (dom ?m) + 1" using new fin by (simp add: domIff)
  ultimately show ?thesis
    using inv True
    by (auto simp: log_inv_def log_balance_def Let_def srv onAccept_new [OF refl] onAccept_log_def
        new_HttpSession_log_def counted_def is_refusal_def split: option.splits)
qed
  then show "log_inv ?l" "log_balance l \<Longrightarrow> log_balance ?l" by simp_all
qed

lemma put_session_log_occurs:
  assumes "ses_pending (sw_session w) = []" "ses_writers (sw_session w) = 0"
  shows "counted (sw_stats w) (put_session_log w) (sw_stats (delete_HttpSession w))"
    "occurs is_Session_Destroyed (put_session_log w) = 1" "occurs is_refusal (put_session_log w) = 0"
    "occurs is_Read_Succeeded (put_session_log w) = 0"
    "occurs is_Session_Closed (put_session_log w) = one_if (ses_open (sw_session w))"
    "timed_out_lines (put_session_log w) = 0"
  using assms
  by (simp_all add: put_session_log_def delete_HttpSession_def delete_HttpSession_log_def counted_def is_refusal_def)

lemma put_session_sockets:
  assumes s: "srv_sessions srv a = Some s" and fin: "finite (dom (srv_sessions srv))"
  shows "card (open_sessions (srv_sessions (put_session a w srv))) + occurs is_Session_Closed (put_session_log w)
      + one_if (ses_open s) = card (open_sessions (srv_sessions srv)) + one_if (ses_open (sw_session w))"
    and "timed_out_lines (put_session_log w) = 0"
proof -
  let ?m = "srv_sessions srv"
  have opened: "card (open_sessions (?m(a \<mapsto> t))) = card (open_sessions (?m(a := None))) + one_if (ses_open t)" for t
    using open_sessions_with [of "?m(a := None)" a t] fin by simp
  have now: "card (open_sessions ?m) = card (open_sessions (?m(a := None))) + one_if (ses_open s)"
    using opened [of s] s by (simp add: fun_upd_idem)
  show "card (open_sessions (srv_sessions (put_session a w srv))) + occurs is_Session_Closed (put_session_log w)
      + one_if (ses_open s) = card (open_sessions ?m) + one_if (ses_open (sw_session w))"
    unfolding now using opened [of "sw_session w"]
    by (simp add: put_session_def put_session_log_def delete_HttpSession_log_def)
  show "timed_out_lines (put_session_log w) = 0"
    by (simp add: put_session_log_def delete_HttpSession_log_def)
qed

lemma put_session_next: "srv_next (put_session a w srv) = srv_next srv"
  by (simp add: put_session_def)

lemma log_inv_session:
  assumes inv: "log_inv l" and srv: "srv = lg_server l" and s: "srv_sessions srv a = Some s"
    and eff: "log_effect (session_world_of srv s) ls w"
  shows "log_inv \<lparr>lg_server = put_session a w srv, lg_lines = lg_lines l @ ls @ put_session_log w\<rparr>"
proof -
  let ?m = "srv_sessions srv" and ?ls = "lg_lines l" and ?srv = "put_session a w srv"
  have inv': "counted zero_statistics ?ls (srv_statistics srv)" "dom ?m \<subseteq> {..<srv_next srv}"
    "session_cnt (srv_statistics srv) = of_nat (srv_next srv) - of_nat (occurs is_Session_Destroyed ?ls)"
    "occurs is_Session_Destroyed ?ls + card (dom ?m) = srv_next srv"
    "occurs is_refusal ?ls \<le> occurs is_Read_Succeeded ?ls"
    and sockets: "occurs is_Session_Closed ?ls + card (open_sessions ?m) \<le> srv_next srv"
    "srv_next srv \<le> occurs is_Session_Closed ?ls + card (open_sessions ?m) + timed_out_lines ?ls"
    using inv by (simp_all add: log_inv_def Let_def srv)
  have eff': "counted (srv_statistics srv) ls (sw_stats w)" "session_cnt (sw_stats w) = session_cnt (srv_statistics srv)"
    "occurs is_Session_Destroyed ls = 0" "occurs is_refusal ls \<le> occurs is_Read_Succeeded ls"
    and lines: "socket_lines (ses_open s) ls (ses_open (sw_session w))"
    using eff by (simp_all add: log_effect_def session_world_of_def)
  have fin: "finite (dom ?m)" and mem: "a \<in> dom ?m"
    using inv'(2) s by (auto intro: finite_subset)
  have sockets': "occurs is_Session_Closed (?ls @ ls @ put_session_log w) + card (open_sessions (srv_sessions ?srv)) \<le> srv_next srv"
    "srv_next srv \<le> occurs is_Session_Closed (?ls @ ls @ put_session_log w) + card (open_sessions (srv_sessions ?srv))
      + timed_out_lines (?ls @ ls @ put_session_log w)"
    using sockets lines put_session_sockets [OF s fin, of w]
    by (simp_all add: socket_lines_def split: if_splits)
  note count = counted_append [OF inv'(1) eff'(1)]
  show ?thesis
  proof (cases "ses_pending (sw_session w) = [] \<and> ses_writers (sw_session w) = 0")
    case True
    then have ends: "ses_pending (sw_session w) = []" "ses_writers (sw_session w) = 0" by simp_all
    note put = put_session_log_occurs [OF ends]
    have "session_cnt (sw_stats (delete_HttpSession w)) = session_cnt (srv_statistics srv) - 1"
      by (simp add: delete_HttpSession_def eff'(2))
    moreover obtain n where n: "card (dom ?m) = Suc n" "card (dom ?m - {a}) = n"
      using card.remove [OF fin mem] by blast
    moreover have "dom ?m - {a} \<subseteq> {..<srv_next srv}" using inv'(2) by blast
    moreover have "counted zero_statistics (?ls @ ls @ put_session_log w) (sw_stats (delete_HttpSession w))"
      using counted_append [OF count put(1)] by simp
    ultimately show ?thesis
      using inv'(3-5) eff'(3,4) put(2-4) ends sockets'
      by (simp add: log_inv_def put_session_def)
  next
    case False
    then have "put_session_log w = []"
      and "put_session a w srv = srv\<lparr>srv_sessions := ?m(a \<mapsto> sw_session w), srv_statistics := sw_stats w\<rparr>"
      unfolding put_session_log_def put_session_def by (simp_all only: if_False)
    with count inv' eff' sockets' mem show ?thesis
      by (simp add: log_inv_def insert_absorb)
  qed
qed

lemma live_core_open: "live_core B opts s \<Longrightarrow> ses_open s"
  by (auto simp: live_core_def session_inv_def Let_def writing_session_def fresh_session_def)

lemma log_balance_session:
  assumes bal: "log_balance l" and core: "server_inv B (lg_server l)" and srv: "srv = lg_server l"
    and s: "srv_sessions srv a = Some s" and eff: "log_effect (session_world_of srv s) ls w"
  shows "log_balance \<lparr>lg_server = put_session a w srv, lg_lines = lg_lines l @ ls @ put_session_log w\<rparr>"
proof -
  have c: "server_core B 0 srv" using core by (simp add: server_inv_def srv)
  note fin = server_core_finite [OF c]
  have "live_core B (srv_opts srv) s" using c s by (simp add: server_core_def)
  then have "occurs is_Session_Closed ls + one_if (ses_open (sw_session w)) + timed_out_lines ls = 1" "ses_open s"
    using eff live_core_open by (auto simp: log_effect_def socket_lines_def session_world_of_def)
  with bal put_session_sockets [OF s fin, of w] show ?thesis
    by (simp add: log_balance_def put_session_next srv split: if_splits)
qed

lemma log_balance_step:
  assumes "log_balance l" "server_inv B (lg_server l)" "log_inv l" and step: "log_step message B handle l l'"
  shows "log_balance l'"
  using step assms(1-3)
  by cases (auto intro: log_inv_accept(2) log_balance_session session_log_effect)

lemma log_inv_step:
  assumes step: "log_step message B handle l l'" and "log_inv l"
  shows "log_inv l'"
  using assms by cases (auto intro: log_inv_accept(1) log_inv_session session_log_effect)

interpretation logging: refinement_system log_start "log_step message B handle"
    "\<lambda>l. log_inv l \<and> (response_laws B \<longrightarrow> one_reply handle \<longrightarrow> server_inv B (lg_server l) \<and> log_balance l)"
    server_started "server_step B handle" lg_server
  for message and B :: "'m boost" and handle :: "'h \<Rightarrow> http_request \<Rightarrow> handle_outcome"
proof
  fix l l' :: "('m, 'h) logged_server"
  assume inv: "log_inv l \<and> (response_laws B \<longrightarrow> one_reply handle \<longrightarrow> server_inv B (lg_server l) \<and> log_balance l)"
    and step: "log_step message B handle l l'"
  show "log_inv l' \<and> (response_laws B \<longrightarrow> one_reply handle \<longrightarrow> server_inv B (lg_server l') \<and> log_balance l')"
    using inv step log_inv_step log_balance_step server_inv_step [OF _ _ _ log_step_sound [OF step]] by blast
  show "server_step B handle (lg_server l) (lg_server l') \<or> lg_server l' = lg_server l"
    using log_step_sound [OF step] ..
qed (auto simp: log_inv_start intro: log_start_server server_inv_started)

subsection \<open>What reaches spdlog\<close>

lemma emit_filter:
  assumes "spdlog_laws S"
  shows "fold (emit S fmt loc) ls st =
    fold (\<lambda>e. httpLog S (loc e) (event_level e) (event_text fmt e))
      (filter (\<lambda>e. getLogLevel S st \<le> event_level e) ls) st"
proof (induction ls arbitrary: st)
  case (Cons e ls)
  have "getLogLevel S (emit S fmt loc e st) = getLogLevel S st"
    by (simp add: emit_def log_keeps_level [OF assms])
  with Cons show ?case by (simp add: emit_def LOG_LOGGER_def)
qed simp

lemma error_lines:
  "occurs (\<lambda>e. Err \<le> event_level e) ls =
     occurs is_refusal ls + occurs is_Write_Timed_Out ls + occurs is_Write_Failed ls"
proof (induction ls)
  case (Cons e ls)
  then show ?case by (cases e) (simp_all add: less_eq_log_level_def is_refusal_def)
qed simp

text \<open>
  C11. The log accounts for the statistics. In every state of a server's first run, whatever its
  handlers do, the counts of timed out, failed and successful reads and writes are the
  numbers of the lines logged for them, modulo the width of the counters, and the session
  count is the number of accepted connections less the \<open>destroy\<close> lines; every accepted
  connection is either alive or has its one \<open>destroy\<close> line; the sockets still open and the
  \<open>closed\<close> lines are together no more than the connections accepted, and those that are missing are
  at most as many as the lines of operations that timed out, because there the stream has
  closed the socket and \<open>doClose\<close> logs nothing; with handlers that answer at most once they are
  exactly as many; no more requests are refused than were read. The lines that reach spdlog are
  exactly those at or above the level set, in the order logged, and at level \<open>Err\<close> these are
  one for each refused request and each failed write.
\<close>

theorem log_accounts_for_statistics:
  assumes "reach log_start (log_step message B handle) l"
    and "srv = lg_server l" and "st = getHttpStatistics srv" and "ls = lg_lines l"
    and "spdlog_laws S"
  shows "hs_read_timeout_cnt st = of_nat (occurs is_Read_Timed_Out ls)
    \<and> hs_read_fail_cnt st = of_nat (occurs is_Read_Failed ls)
    \<and> hs_read_success_cnt st = of_nat (occurs is_Read_Succeeded ls)
    \<and> hs_write_timeout_cnt st = of_nat (occurs is_Write_Timed_Out ls)
    \<and> hs_write_fail_cnt st = of_nat (occurs is_Write_Failed ls)
    \<and> hs_write_success_cnt st = of_nat (occurs (\<lambda>e. is_Write_Succeeded e \<or> is_Keep_Alive_False e) ls)
    \<and> hs_session_cnt st = of_nat (srv_next srv) - of_nat (occurs is_Session_Destroyed ls)
    \<and> occurs is_Session_Destroyed ls + card (dom (srv_sessions srv)) = srv_next srv
    \<and> occurs is_Session_Closed ls + card (open_sessions (srv_sessions srv)) \<le> srv_next srv
    \<and> srv_next srv \<le> occurs is_Session_Closed ls + card (open_sessions (srv_sessions srv)) + timed_out_lines ls
    \<and> (response_laws B \<and> one_reply handle \<longrightarrow>
         occurs is_Session_Closed ls + timed_out_lines ls + card (open_sessions (srv_sessions srv)) = srv_next srv)
    \<and> occurs is_refusal ls \<le> occurs is_Read_Succeeded ls
    \<and> fold (emit S fmt loc) ls log =
        fold (\<lambda>e. httpLog S (loc e) (event_level e) (event_text fmt e))
          (filter (\<lambda>e. getLogLevel S log \<le> event_level e) ls) log
    \<and> occurs (\<lambda>e. Err \<le> event_level e) ls =
        occurs is_refusal ls + occurs is_Write_Timed_Out ls + occurs is_Write_Failed ls"
proof -
  have inv: "log_inv l" and bal: "response_laws B \<and> one_reply handle \<longrightarrow> log_balance l"
    using logging.reach_inv [OF assms(1)] by blast+
  have "response_laws B \<and> one_reply handle \<longrightarrow>
      occurs is_Session_Closed ls + timed_out_lines ls + card (open_sessions (srv_sessions srv)) = srv_next srv"
    using bal unfolding log_balance_def assms(2,4) by blast
  with inv emit_filter [OF assms(5), of fmt loc ls log] error_lines [of ls] show ?thesis
    by (simp add: log_inv_def Let_def counted_def assms(2-4) getHttpStatistics_def zero_statistics_def)
qed

text \<open>The witness: a connection whose first read times out.\<close>

definition demo_timed_out :: "(ref_message, nat) logged_server" where
  "demo_timed_out =
     \<lparr>lg_server = put_session 0 (doClose (upd_stats (\<lambda>t. t\<lparr>read_timeout_cnt := read_timeout_cnt t + 1\<rparr>)
         (read_world ref_boost Timeout empty_request
           (session_world_of demo_connected (the (srv_sessions demo_connected 0)))))) demo_connected,
      lg_lines = [Start_Listen ''here'' (srv_opts demo_server), Session_Created 1 ''there'',
        Read_Timed_Out 1 1, Session_Destroyed 1]\<rparr>"

lemma demo_timed_out_reachable:
  "reach log_start (log_step message ref_boost silent_handler) demo_timed_out"
proof -
  let ?l0 = "\<lparr>lg_server = running_state demo_server, lg_lines = [Start_Listen ''here'' (srv_opts demo_server)]\<rparr>"
  let ?l1 = "\<lparr>lg_server = demo_connected, lg_lines = lg_lines ?l0 @ onAccept_log Success (Some ''there'') (running_state demo_server)\<rparr>"
  have "server_run_log good_net ''here'' demo_server = [Start_Listen ''here'' (srv_opts demo_server)]"
    by (simp add: server_run_log_def demo_run)
  then have "log_start ?l0"
    using demo_run router_wf_new unfolding log_start_def
    by (intro exI [where x = good_net] exI [where x = "''here''"] exI [where x = "srv_opts demo_server"]
        exI [where x = "new_HttpRouter"] exI [where x = demo_server])
      (simp add: demo_server_def new_HttpServerImpl_def)
  then have "reach log_start (log_step message ref_boost silent_handler) ?l0" by (rule reach_start)
  moreover have "log_step message ref_boost silent_handler ?l0 ?l1"
    using log_step.accept_logged [where l = ?l0 and ec = Success and remote = "Some ''there''"]
    by (simp add: demo_connected_def running_state_def)
  ultimately have "reach log_start (log_step message ref_boost silent_handler) ?l1" by (rule reach_step)
  moreover
  let ?before = "session_world_of demo_connected (the (srv_sessions demo_connected 0))"
  let ?r = "read_world ref_boost Timeout empty_request ?before"
  let ?w = "doClose (upd_stats (\<lambda>t. t\<lparr>read_timeout_cnt := read_timeout_cnt t + 1\<rparr>) ?r)"
  have some: "srv_sessions demo_connected 0 = Some (the (srv_sessions demo_connected 0))"
    by (simp add: demo_connected_session)
  have runs: "\<not> srv_io_stopped demo_connected"
    by (simp add: demo_connected_def server_simps Let_def running_state_def start_simps)
  have "session_log_step message ref_boost (srv_opts demo_connected) (srv_router demo_connected) silent_handler
      (onRead_log message ref_boost (srv_router demo_connected) Timeout ?r) ?before ?w"
    by (rule session_log_step.read_logged [where ec = Timeout and msg = empty_request and now = 0 and w = ?before and r = ?r])
      (simp_all add: demo_connected_session session_world_of_def start_simps onRead_def)
  from log_step.session_logged [where l = ?l1 and srv = demo_connected, OF _ _ some this] runs
  have "log_step message ref_boost silent_handler ?l1
      \<lparr>lg_server = put_session 0 ?w demo_connected, lg_lines = lg_lines ?l1
        @ onRead_log message ref_boost (srv_router demo_connected) Timeout ?r @ put_session_log ?w\<rparr>"
    by simp
  ultimately have "reach log_start (log_step message ref_boost silent_handler)
      \<lparr>lg_server = put_session 0 ?w demo_connected, lg_lines = lg_lines ?l1
        @ onRead_log message ref_boost (srv_router demo_connected) Timeout ?r @ put_session_log ?w\<rparr>"
    by (rule reach_step)
  then show ?thesis
    by (simp add: demo_timed_out_def demo_connected_session session_world_of_def start_simps onRead_log_def
        onAccept_log_def new_HttpSession_log_def put_session_log_def delete_HttpSession_log_def
        doClose_log_def doClose_def running_state_def demo_server_def new_HttpServerImpl_def)
qed

theorem log_accounts_for_statistics_witness:
  "hs_read_timeout_cnt (getHttpStatistics (lg_server demo_timed_out)) = 1
   \<and> card (dom (srv_sessions (lg_server demo_timed_out))) + 1 = srv_next (lg_server demo_timed_out)
   \<and> occurs is_Session_Closed (lg_lines demo_timed_out) = 0
   \<and> card (open_sessions (srv_sessions (lg_server demo_timed_out))) + 1 = srv_next (lg_server demo_timed_out)"
  using log_accounts_for_statistics [OF demo_timed_out_reachable refl refl refl ref_spdlog_laws]
    ref_response_laws one_reply_silent
  by (simp add: demo_timed_out_def)

end
