(* ===== verification/Http_Strand.thy ===== *)
theory Http_Strand
  imports Http_Server_Props
begin

section \<open>Handlers that run while other things happen\<close>

text \<open>
  In \<open>Http_Server_Impl\<close> a completion handler is one step, the call of the user's \<open>handle\<close>
  included. In the program \<open>handle\<close> may take long: meanwhile other I/O threads accept
  connections and serve other sessions, another thread may send the response, and
  \<open>getHttpStatistics\<close> may be called. This theory splits \<open>processRequest\<close> at the call of
  \<open>handle\<close> (http\_session.cpp, line 270) and lets everything happen in between that can. What
  cannot is another completion handler of the same session: they are on its strand, which
  the running one occupies. What is done with the
  writer given to \<open>handle\<close> is left to the theories that follow.
\<close>

subsection \<open>The two halves of processRequest\<close>

definition dispatch_begin ::
    "http_server_options \<Rightarrow> int \<Rightarrow> url_view \<Rightarrow> 'm session_world \<Rightarrow> http_request \<times> 'm session_world" where
  "dispatch_begin opts now url w =
     (let request = build_request opts now (sw_session w) url;
          w = (if length (rq_body (ses_request (sw_session w))) > 0 then clear_request_body w else w);
          w = upd_stats (\<lambda>t. t\<lparr>working_handler_cnt := working_handler_cnt t + 1\<rparr>) w
      in (request, upd_session (\<lambda>s. s\<lparr>ses_writers := ses_writers s + 1\<rparr>) w))"

definition dispatch_end :: "'m session_world \<Rightarrow> 'm session_world" where
  "dispatch_end w =
     count_handled (upd_stats (\<lambda>t. t\<lparr>working_handler_cnt := working_handler_cnt t - 1\<rparr>) w)"

text \<open>The result also says which handler is called with which request, if one is.\<close>

definition process_begin ::
    "'m boost \<Rightarrow> http_server_options \<Rightarrow> 'h http_router \<Rightarrow> int \<Rightarrow> 'm session_world
       \<Rightarrow> (('h \<times> http_request) option \<times> 'm session_world) option" where
  "process_begin B opts router now w =
     (case parse_target B (ses_request (sw_session w)) of
        Inl e \<Rightarrow> Some (None, refuse B opts ''url invalid'' w)
      | Inr url \<Rightarrow>
          (case search_segments (url_segments url) router of
             None \<Rightarrow> None
           | Some None \<Rightarrow> Some (None, refuse B opts ''current url not support'' w)
           | Some (Some handler) \<Rightarrow>
               if rq_method (ses_request (sw_session w)) > verb_put B
               then Some (None, refuse B opts ''current method not support'' w)
               else (case dispatch_begin opts now url w of
                       (request, w') \<Rightarrow> Some (Some (handler, request), w'))))"

definition onRead_begin ::
    "'m boost \<Rightarrow> http_server_options \<Rightarrow> 'h http_router \<Rightarrow> int \<Rightarrow> error_code \<Rightarrow> 'm session_world
       \<Rightarrow> (('h \<times> http_request) option \<times> 'm session_world) option" where
  "onRead_begin B opts router now ec w =
     (if ec = End_Of_Stream then Some (None, doClose w)
      else if ec = Timeout
      then Some (None, doClose (upd_stats (\<lambda>t. t\<lparr>read_timeout_cnt := read_timeout_cnt t + 1\<rparr>) w))
      else if ec \<noteq> Success
      then Some (None, doClose (upd_stats (\<lambda>t. t\<lparr>read_fail_cnt := read_fail_cnt t + 1\<rparr>) w))
      else process_begin B opts router now
             (upd_stats (\<lambda>t. t\<lparr>read_success_cnt := read_success_cnt t + 1\<rparr>) w))"

subsection \<open>Steps\<close>

text \<open>
  \<open>cs_handling\<close>: the sessions whose strand is inside \<open>handle\<close>; their session is alive.
\<close>

record ('m, 'h) concurrent_server =
  cs_server :: "('m, 'h) http_server_impl"
  cs_handling :: "nat set"

definition hold_session ::
    "nat \<Rightarrow> 'm session_world \<Rightarrow> ('m, 'h) http_server_impl \<Rightarrow> ('m, 'h) http_server_impl" where
  "hold_session a w srv =
     srv\<lparr>srv_sessions := (srv_sessions srv)(a \<mapsto> sw_session w), srv_statistics := sw_stats w\<rparr>"

text \<open>
  The steps of the server itself. The label of a step is the session for which it has made an
  \<open>HttpResponseWriter\<close>, if it has. \<open>handle\<close> leaves its step only by returning: it is
  \<open>noexcept\<close> (http\_handler.h, line 28), so a handler that throws ends the program on every
  thread, and there is no later state of the server.
\<close>

inductive strand_step ::
    "'m boost \<Rightarrow> nat option \<Rightarrow> ('m, 'h) concurrent_server \<Rightarrow> ('m, 'h) concurrent_server \<Rightarrow> bool"
  for B :: "'m boost" where
  strand_accept:
    "\<not> srv_io_stopped (cs_server c) \<Longrightarrow> 0 < srv_accepts (cs_server c) \<Longrightarrow>
     strand_step B None c (c\<lparr>cs_server :=
       onAccept B ec ((cs_server c)\<lparr>srv_accepts := srv_accepts (cs_server c) - 1\<rparr>)\<rparr>)"
| strand_read:
    "\<not> srv_io_stopped srv \<Longrightarrow> srv = cs_server c \<Longrightarrow> a \<notin> cs_handling c \<Longrightarrow> srv_sessions srv a = Some s \<Longrightarrow>
     Async_Read \<in> set (ses_pending s) \<Longrightarrow>
     onRead_begin B (srv_opts srv) (srv_router srv) now ec
       (read_world B ec msg (session_world_of srv s)) = Some (None, w) \<Longrightarrow>
     strand_step B None c (c\<lparr>cs_server := put_session a w srv\<rparr>)"
| strand_handle:
    "\<not> srv_io_stopped srv \<Longrightarrow> srv = cs_server c \<Longrightarrow> a \<notin> cs_handling c \<Longrightarrow> srv_sessions srv a = Some s \<Longrightarrow>
     Async_Read \<in> set (ses_pending s) \<Longrightarrow>
     onRead_begin B (srv_opts srv) (srv_router srv) now ec
       (read_world B ec msg (session_world_of srv s)) = Some (Some (h, request), w) \<Longrightarrow>
     strand_step B (Some a) c (c\<lparr>cs_server := put_session a w srv, cs_handling := insert a (cs_handling c)\<rparr>)"
| strand_return:
    "srv = cs_server c \<Longrightarrow> a \<in> cs_handling c \<Longrightarrow> srv_sessions srv a = Some s \<Longrightarrow>
     strand_step B None c (c\<lparr>cs_server := put_session a (dispatch_end (session_world_of srv s)) srv,
                            cs_handling := cs_handling c - {a}\<rparr>)"
| strand_write:
    "\<not> srv_io_stopped srv \<Longrightarrow> srv = cs_server c \<Longrightarrow> a \<notin> cs_handling c \<Longrightarrow> srv_sessions srv a = Some s \<Longrightarrow>
     Async_Write m ka \<in> set (ses_pending s) \<Longrightarrow>
     strand_step B None c (c\<lparr>cs_server := put_session a (onWrite B (srv_opts srv) ka ec
       (write_world ec (Async_Write m ka) (session_world_of srv s))) srv\<rparr>)"

inductive_cases strand_step_labelE: "strand_step B (Some a) c c'"

definition concurrent_start :: "('m, 'h) concurrent_server \<Rightarrow> bool" where
  "concurrent_start c \<longleftrightarrow> server_started (cs_server c) \<and> cs_handling c = {}"

subsection \<open>Where sessions are\<close>

definition conc_inv :: "('m, 'h) concurrent_server \<Rightarrow> bool" where
  "conc_inv c \<longleftrightarrow> cs_handling c \<subseteq> dom (srv_sessions (cs_server c))
     \<and> dom (srv_sessions (cs_server c)) \<subseteq> {..<srv_next (cs_server c)}"

lemma conc_inv_finite: "conc_inv c \<Longrightarrow> finite (cs_handling c)"
  by (auto simp: conc_inv_def intro: finite_subset)

lemma leave_count: "conc_inv c \<Longrightarrow> a \<in> cs_handling c \<Longrightarrow> card (cs_handling c) = Suc (card (cs_handling c - {a}))"
  using card_Suc_Diff1 [OF conc_inv_finite] by metis

lemma conc_inv_put:
  assumes "conc_inv c" and "srv_sessions (cs_server c) a = Some s"
    and "cs_server c' = put_session a w (cs_server c)" and "cs_handling c' \<subseteq> cs_handling c - {a}"
  shows "conc_inv c'"
  using assms by (auto simp: conc_inv_def put_session_def)

lemma conc_inv_hold:
  assumes "conc_inv c" and "srv_sessions (cs_server c) a = Some s"
    and "cs_server c' = hold_session a w (cs_server c)" and "cs_handling c' \<subseteq> insert a (cs_handling c)"
  shows "conc_inv c'"
  using assms by (auto simp: conc_inv_def hold_session_def)

lemma onRead_begin_writer:
  "onRead_begin B opts router now ec w = Some (Some hr, w') \<Longrightarrow>
     ec = Success \<and> 0 < ses_writers (sw_session w') \<and> ses_pending (sw_session w') = ses_pending (sw_session w)"
  by (auto simp: onRead_begin_def process_begin_def dispatch_begin_def clear_request_body_def Let_def
      split: if_splits sum.splits option.splits prod.splits)

lemma put_hold: "0 < ses_writers (sw_session w) \<Longrightarrow> put_session a w srv = hold_session a w srv"
  by (simp add: put_session_def hold_session_def)

lemma onAccept_dom:
  "dom (srv_sessions (onAccept B ec srv)) = (if ec = Success then insert (srv_next srv) else id) (dom (srv_sessions srv))"
  "srv_next (onAccept B ec srv) = srv_next srv + (if ec = Success then 1 else 0)"
  by (auto simp: server_simps start_simps Let_def)

lemma conc_inv_start: "concurrent_start c \<Longrightarrow> conc_inv c"
  by (auto simp: concurrent_start_def conc_inv_def server_started_def server_run_None_iff
      running_state_def new_HttpServerImpl_def)

lemma conc_inv_strand:
  assumes inv: "conc_inv c" and step: "strand_step B l c c'"
  shows "conc_inv c'"
  using step
proof cases
  case (strand_accept ec)
  with inv show ?thesis by (auto simp: conc_inv_def onAccept_dom)
next
  case (strand_read srv a s now ec msg w)
  then show ?thesis by (intro conc_inv_put [OF inv, of a s]) auto
next
  case (strand_handle srv a s now ec msg h request w)
  then have "put_session a w srv = hold_session a w srv"
    by (auto dest!: onRead_begin_writer intro: put_hold)
  with strand_handle show ?thesis by (intro conc_inv_hold [OF inv, of a s]) auto
next
  case (strand_return srv a s)
  then show ?thesis by (intro conc_inv_put [OF inv, of a s]) auto
next
  case (strand_write srv a s m ka ec)
  then show ?thesis by (intro conc_inv_put [OF inv, of a s]) auto
qed

text \<open>A handler that runs: a request for a registered path has arrived on the first connection.\<close>

lemma onRead_begin_handler:
  assumes "parse_target B (ses_request (sw_session w)) = Inr url"
    and "search_segments (url_segments url) router = Some (Some h)"
    and "\<not> verb_put B < rq_method (ses_request (sw_session w))"
  shows "\<exists>request w'. onRead_begin B opts router now Success w = Some (Some (h, request), w')"
  using assms by (simp add: onRead_begin_def process_begin_def split: prod.split)

lemma demo_handling:
  "\<exists>c0 c1 c2 :: (ref_message, nat) concurrent_server.
     concurrent_start c0 \<and> strand_step ref_boost None c0 c1 \<and> strand_step ref_boost (Some 0) c1 c2
     \<and> cs_handling c2 = {0}"
proof -
  obtain r :: "nat http_router" where r': "router_wf r"
    "table_of r = route_insert (key_prefix [''hello'']) 0 (table_of new_HttpRouter)"
    using tree.register_ok [OF router_wf_new, of "[''hello'']" 0] by blast
  then have r: "router_wf r" "search_segments [''hello''] r = Some (Some 0)"
    by (auto intro: exact_route simp: key_prefix_def)
  let ?new = "(new_HttpServerImpl default_options)\<lparr>srv_router := r\<rparr> :: (ref_message, nat) http_server_impl"
  let ?c0 = "\<lparr>cs_server = running_state ?new, cs_handling = {}\<rparr>"
  let ?c1 = "?c0\<lparr>cs_server := onAccept ref_boost Success ((running_state ?new)\<lparr>srv_accepts := 0\<rparr>)\<rparr>"
  have "server_run good_net ?new = (None, running_state ?new)"
    by (simp add: server_run_None_iff good_net_def default_options_def new_HttpServerImpl_def)
  then have start: "concurrent_start ?c0"
    using r(1) by (auto simp: concurrent_start_def server_started_def)
  have accept: "strand_step ref_boost None ?c0 ?c1"
    using strand_accept [of ?c0 ref_boost Success]
    by (simp add: running_state_def new_HttpServerImpl_def)
  obtain s where s: "srv_sessions (cs_server ?c1) 0 = Some s" "ses_pending s = [Async_Read]"
    by (simp add: onAccept_new [OF refl] running_state_def new_HttpServerImpl_def start_simps)
  obtain url where url: "parse_target ref_boost demo_request = Inr url" "url_segments url = [''hello'']"
    by (simp add: demo_url)
  have "parse_target ref_boost (read_into ref_boost q demo_request) = parse_target ref_boost demo_request"
    "\<not> verb_put ref_boost < rq_method (read_into ref_boost q demo_request)" for q
    by (simp_all add: parse_target_def ref_boost_def demo_request_def)
  then have "\<exists>request w. onRead_begin ref_boost (srv_opts (cs_server ?c1)) (srv_router (cs_server ?c1)) 0 Success
      (read_world ref_boost Success demo_request (session_world_of (cs_server ?c1) s)) = Some (Some (0, request), w)"
    using url r(2)
    by (intro onRead_begin_handler [of _ _ url])
      (simp_all add: session_world_of_def onAccept_new [OF refl] running_state_def)
  then obtain request w where
    "onRead_begin ref_boost (srv_opts (cs_server ?c1)) (srv_router (cs_server ?c1)) 0 Success
      (read_world ref_boost Success demo_request (session_world_of (cs_server ?c1) s)) = Some (Some (0, request), w)"
    by blast
  from strand_handle [OF _ refl _ s(1) _ this] s(2)
  have "strand_step ref_boost (Some 0) ?c1 (?c1\<lparr>cs_server := put_session 0 w (cs_server ?c1), cs_handling := {0}\<rparr>)"
    by (simp add: onAccept_new [OF refl] running_state_def)
  with start accept show ?thesis
    by (intro exI [where x = ?c0] exI [where x = ?c1] exI) (rule conjI, assumption, rule conjI, assumption, rule conjI, assumption, simp)
qed

end
