(* ===== verification/Http_Concurrency.thy ===== *)
theory Http_Concurrency
  imports Http_Strand
begin

section \<open>Handlers that run concurrently, each answering at most once\<close>

text \<open>
  The steps of \<open>Http_Strand\<close> together with handlers that use the writer they were given at most
  once, from any thread, inside \<open>handle\<close> or later: \<open>send\<close> and then drop it, or drop it. The
  system refines the atomic events of \<open>Http_Server_Impl\<close>.
\<close>

inductive concurrent_step ::
    "'m boost \<Rightarrow> ('m, 'h) concurrent_server \<Rightarrow> ('m, 'h) concurrent_server \<Rightarrow> bool"
  for B :: "'m boost" where
  conc_strand:
    "strand_step B l c c' \<Longrightarrow> concurrent_step B c c'"
| conc_send:
    "srv = cs_server c \<Longrightarrow> srv_sessions srv a = Some s \<Longrightarrow> 0 < ses_writers s \<Longrightarrow>
     concurrent_step B c (c\<lparr>cs_server := hold_session a (writeResponse B (srv_opts srv) rsp
       (upd_session (\<lambda>s. s\<lparr>ses_writers := ses_writers s - 1\<rparr>) (session_world_of srv s))) srv\<rparr>)"
| conc_drop:
    "srv = cs_server c \<Longrightarrow> srv_sessions srv a = Some s \<Longrightarrow> 0 < ses_writers s \<Longrightarrow>
     concurrent_step B c (c\<lparr>cs_server :=
       (if a \<in> cs_handling c then hold_session a else put_session a)
         (upd_session (\<lambda>s. s\<lparr>ses_writers := ses_writers s - 1\<rparr>) (session_world_of srv s)) srv\<rparr>)"

subsection \<open>Abstraction to atomic handlers\<close>

text \<open>
  The abstract handler keeps the writer and returns. A handler that is still running is taken to
  have returned: its counters are settled, and a session that only a running handler keeps alive is
  kept alive by a writer.
\<close>

abbreviation keep_writer :: "'h \<Rightarrow> http_request \<Rightarrow> handle_outcome" where
  "keep_writer h r \<equiv> \<lparr>sent_now = [], kept_writer = True\<rparr>"

definition settle :: "nat \<Rightarrow> http_statistics_internal \<Rightarrow> http_statistics_internal" where
  "settle n t = t\<lparr>handle_request_cnt := handle_request_cnt t + of_nat n,
     working_handler_cnt := working_handler_cnt t - of_nat n\<rparr>"

definition kept_alive :: "bool \<Rightarrow> 'm http_session \<Rightarrow> 'm http_session" where
  "kept_alive handling s =
     (if handling \<and> ses_pending s = [] \<and> ses_writers s = 0 then s\<lparr>ses_writers := 1\<rparr> else s)"

abbreviation unsettled :: "('m, 'h) concurrent_server \<Rightarrow> nat" where
  "unsettled c \<equiv> card (cs_handling c)"

definition settled :: "('m, 'h) concurrent_server \<Rightarrow> ('m, 'h) http_server_impl" where
  "settled c = (cs_server c)
     \<lparr>srv_statistics := settle (unsettled c) (srv_statistics (cs_server c)),
      srv_sessions := (\<lambda>a. map_option (kept_alive (a \<in> cs_handling c)) (srv_sessions (cs_server c) a))\<rparr>"

lemma keep_dispatch:
  "dispatch_request B opts (keep_writer h) now url w = dispatch_end (snd (dispatch_begin opts now url w))"
  by (simp add: dispatch_request_def dispatch_begin_def dispatch_end_def run_handler_def count_handled_def Let_def)

lemma onRead_split:
  "onRead B opts router keep_writer now ec w =
     (case onRead_begin B opts router now ec w of
        None \<Rightarrow> None
      | Some (None, w') \<Rightarrow> Some w'
      | Some (Some hr, w') \<Rightarrow> Some (dispatch_end w'))"
  by (simp add: onRead_def onRead_begin_def processRequest_def process_begin_def keep_dispatch
      split: sum.split option.split prod.split)

subsection \<open>Settling commutes with the operations\<close>

abbreviation settle_world :: "nat \<Rightarrow> 'm session_world \<Rightarrow> 'm session_world" where
  "settle_world n w \<equiv> upd_stats (settle n) w"

lemma settle_stats [simp]:
  "session_cnt (settle n t) = session_cnt t"
  "read_timeout_cnt (settle n t) = read_timeout_cnt t"
  "read_success_cnt (settle n t) = read_success_cnt t"
  "read_fail_cnt (settle n t) = read_fail_cnt t"
  "write_timeout_cnt (settle n t) = write_timeout_cnt t"
  "write_success_cnt (settle n t) = write_success_cnt t"
  "write_fail_cnt (settle n t) = write_fail_cnt t"
  by (simp_all add: settle_def)

lemma settle_update:
  "(settle n t)\<lparr>session_cnt := x\<rparr> = settle n (t\<lparr>session_cnt := x\<rparr>)"
  "(settle n t)\<lparr>read_timeout_cnt := y\<rparr> = settle n (t\<lparr>read_timeout_cnt := y\<rparr>)"
  "(settle n t)\<lparr>read_success_cnt := y\<rparr> = settle n (t\<lparr>read_success_cnt := y\<rparr>)"
  "(settle n t)\<lparr>read_fail_cnt := y\<rparr> = settle n (t\<lparr>read_fail_cnt := y\<rparr>)"
  "(settle n t)\<lparr>write_timeout_cnt := y\<rparr> = settle n (t\<lparr>write_timeout_cnt := y\<rparr>)"
  "(settle n t)\<lparr>write_success_cnt := y\<rparr> = settle n (t\<lparr>write_success_cnt := y\<rparr>)"
  "(settle n t)\<lparr>write_fail_cnt := y\<rparr> = settle n (t\<lparr>write_fail_cnt := y\<rparr>)"
  "(settle n t)\<lparr>handle_request_cnt := handle_request_cnt (settle n t') + 1\<rparr> =
     settle n (t\<lparr>handle_request_cnt := handle_request_cnt t' + 1\<rparr>)"
  "(settle n t)\<lparr>working_handler_cnt := working_handler_cnt (settle n t) + 1\<rparr> =
     settle n (t\<lparr>working_handler_cnt := working_handler_cnt t + 1\<rparr>)"
  "(settle n t)\<lparr>working_handler_cnt := working_handler_cnt (settle n t) - 1\<rparr> =
     settle n (t\<lparr>working_handler_cnt := working_handler_cnt t - 1\<rparr>)"
  by (simp_all add: settle_def)

lemma settle_writeResponse: "writeResponse B opts rsp (settle_world n w) = settle_world n (writeResponse B opts rsp w)"
  by (simp add: writeResponse_def doWrite_def)

lemma settle_doClose: "doClose (settle_world n w) = settle_world n (doClose w)"
  by (simp add: doClose_def)

lemma settle_refuse: "refuse B opts reason (settle_world n w) = settle_world n (refuse B opts reason w)"
  by (simp add: refuse_def clear_request_body_def count_handled_def writeResponse_def doWrite_def settle_update)

lemma settle_dispatch_begin:
  "dispatch_begin opts now url (settle_world n w) = map_prod id (settle_world n) (dispatch_begin opts now url w)"
  by (simp add: dispatch_begin_def clear_request_body_def Let_def settle_update)

lemma settle_onRead_begin:
  "onRead_begin B opts router now ec (settle_world n w) =
     map_option (map_prod id (settle_world n)) (onRead_begin B opts router now ec w)"
proof -
  have "process_begin B opts router now (settle_world n v) =
      map_option (map_prod id (settle_world n)) (process_begin B opts router now v)" for v
    by (simp add: process_begin_def settle_refuse settle_dispatch_begin
        split: sum.split option.split prod.split)
  from this [of "upd_stats (\<lambda>t. t\<lparr>read_success_cnt := read_success_cnt t + 1\<rparr>) w"] show ?thesis
    by (simp add: onRead_begin_def settle_update doClose_def)
qed

lemma settle_onWrite: "onWrite B opts ka ec (settle_world n w) = settle_world n (onWrite B opts ka ec w)"
  by (simp add: onWrite_def settle_update doClose_def doRead_def)

lemma conc_inv_step:
  assumes inv: "conc_inv c" and step: "concurrent_step B c c'"
  shows "conc_inv c'"
  using step
proof cases
  case (conc_strand l)
  with conc_inv_strand [OF inv] show ?thesis by blast
next
  case (conc_send srv a s rsp)
  then show ?thesis by (intro conc_inv_hold [OF inv, of a s]) auto
next
  case (conc_drop srv a s)
  then show ?thesis
    by (cases "a \<in> cs_handling c") (auto intro: conc_inv_hold [OF inv, of a s] conc_inv_put [OF inv, of a s])
qed

subsection \<open>Every step is an atomic step or none\<close>

lemma settled_sels [simp]:
  "srv_opts (settled c) = srv_opts (cs_server c)" "srv_router (settled c) = srv_router (cs_server c)"
  "srv_io_stopped (settled c) = srv_io_stopped (cs_server c)"
  "srv_accepts (settled c) = srv_accepts (cs_server c)" "srv_next (settled c) = srv_next (cs_server c)"
  "srv_statistics (settled c) = settle (unsettled c) (srv_statistics (cs_server c))"
  "srv_sessions (settled c) a = map_option (kept_alive (a \<in> cs_handling c)) (srv_sessions (cs_server c) a)"
  by (simp_all add: settled_def)

lemma settled_world:
  "session_world_of (settled c) s = settle_world (unsettled c) (session_world_of (cs_server c) s)"
  by (simp add: session_world_of_def)

lemma settled_put:
  assumes "a \<notin> cs_handling c"
  shows "settled (c\<lparr>cs_server := put_session a w (cs_server c)\<rparr>) =
    put_session a (settle_world (unsettled c) w) (settled c)"
  using assms
  by (auto simp: settled_def put_session_def delete_HttpSession_def doClose_def kept_alive_def
      settle_update fun_eq_iff)

lemma settled_accept:
  assumes "conc_inv c"
  shows "settled (c\<lparr>cs_server := onAccept B ec ((cs_server c)\<lparr>srv_accepts := n\<rparr>)\<rparr>) =
    onAccept B ec ((settled c)\<lparr>srv_accepts := n\<rparr>)"
proof -
  have new: "srv_next (cs_server c) \<notin> cs_handling c" using assms by (auto simp: conc_inv_def)
  show ?thesis
  proof (cases "ec = Success")
    case True
    with new show ?thesis
      by (auto simp: onAccept_new [OF refl] settled_def settle_update start_simps kept_alive_def fun_eq_iff)
  qed (simp add: onAccept_def doAccept_def settled_def)
qed

lemma settled_hold:
  assumes "0 < ses_writers (sw_session w) \<or> ses_pending (sw_session w) \<noteq> []"
  shows "settled (c\<lparr>cs_server := hold_session a w (cs_server c)\<rparr>) =
    put_session a (settle_world (unsettled c) w) (settled c)"
  using assms
  by (auto simp: settled_def put_session_def hold_session_def kept_alive_def fun_eq_iff)

lemma settled_session:
  assumes "srv_sessions (cs_server c) a = Some s" and "a \<notin> cs_handling c \<or> 0 < ses_writers s \<or> ses_pending s \<noteq> []"
  shows "srv_sessions (settled c) a = Some s"
  using assms by (auto simp: kept_alive_def)

text \<open>A step of a session that is not inside \<open>handle\<close>, or that keeps its owner.\<close>

lemma settled_moved:
  assumes "srv_sessions (settled c) a = Some s"
    and "\<not> srv_io_stopped (cs_server c) \<or> 0 < ses_writers s"
    and "session_step B (srv_opts (cs_server c)) (srv_router (cs_server c)) handle
      (settle_world (unsettled c) (session_world_of (cs_server c) s)) w"
  shows "server_step B handle (settled c) (put_session a w (settled c))"
  using assms by (intro server_step.session_moved [where s = s]) (simp_all add: settled_world)

lemma settle_read_world: "read_world B ec msg (settle_world n w) = settle_world n (read_world B ec msg w)"
  by (simp add: read_world_def)

lemma settle_dispatch_end: "dispatch_end (settle_world n w) = settle_world n (dispatch_end w)"
  by (simp add: dispatch_end_def count_handled_def settle_update)

lemma read_step:
  assumes "Async_Read \<in> set (ses_pending (sw_session v))"
    and "onRead_begin B opts router now ec (read_world B ec msg v) = Some (hr, w)"
  shows "session_step B opts router keep_writer (settle_world n v)
    (settle_world n (if hr = None then w else dispatch_end w))"
proof (rule session_step.read_completed [where now = now and ec = ec and msg = msg])
  show "onRead B opts router keep_writer now ec (read_world B ec msg (settle_world n v)) =
      Some (settle_world n (if hr = None then w else dispatch_end w))"
    using assms(2)
    by (cases hr) (simp_all add: settle_read_world onRead_split settle_onRead_begin settle_dispatch_end del: read_world_sels)
qed (use assms(1) in simp)

lemma settle_Suc: "settle n (sw_stats (dispatch_end w)) = settle (Suc n) (sw_stats w)"
  by (simp add: settle_def dispatch_end_def count_handled_def)

lemma dispatch_end_session [simp]: "sw_session (dispatch_end w) = sw_session w"
  by (simp add: dispatch_end_def count_handled_def)

text \<open>Entering \<open>handle\<close> is the whole of \<open>onRead\<close>; leaving it is nothing, or the end of the session.\<close>

lemma settled_enter:
  assumes "a \<notin> cs_handling c" "finite (cs_handling c)" "0 < ses_writers (sw_session w)"
  shows "settled (c\<lparr>cs_server := put_session a w (cs_server c), cs_handling := insert a (cs_handling c)\<rparr>) =
    put_session a (settle_world (unsettled c) (dispatch_end w)) (settled c)"
  using assms
  by (auto simp: settled_def put_session_def kept_alive_def settle_Suc fun_eq_iff)

lemma settled_leave:
  assumes "srv_sessions (cs_server c) a = Some s" and alive: "0 < ses_writers s \<or> ses_pending s \<noteq> []"
    and v: "sw_session v = s"
      "settle (unsettled c') (sw_stats v) = settle (unsettled c) (srv_statistics (cs_server c))"
    and c': "cs_server c' = put_session a v (cs_server c)" "cs_handling c' = cs_handling c - {a}"
  shows "settled c' = settled c"
proof -
  have "(\<lambda>b. map_option (kept_alive (b \<in> cs_handling c - {a})) (((srv_sessions (cs_server c))(a \<mapsto> s)) b)) =
      (\<lambda>b. map_option (kept_alive (b \<in> cs_handling c)) (srv_sessions (cs_server c) b))"
    using assms(1) alive by (auto simp: fun_eq_iff kept_alive_def)
  moreover have "put_session a v (cs_server c) =
      (cs_server c)\<lparr>srv_sessions := (srv_sessions (cs_server c))(a \<mapsto> s), srv_statistics := sw_stats v\<rparr>"
    using alive v(1) by (auto simp: put_session_def)
  ultimately show ?thesis using v(2) unfolding settled_def c' by simp
qed

lemma settled_leave_last:
  assumes last: "ses_writers s = 0" "ses_pending s = []"
    and v: "sw_session v = s"
      "settle (unsettled c') (sw_stats v) = settle (unsettled c) (srv_statistics (cs_server c))"
    and c': "cs_server c' = put_session a v (cs_server c)" "cs_handling c' = cs_handling c - {a}"
  shows "settled c' = put_session a (settle_world (unsettled c) (session_world_of (cs_server c) s)) (settled c)"
proof -
  have "(\<lambda>b. map_option (kept_alive (b \<in> cs_handling c - {a})) (((srv_sessions (cs_server c))(a := None)) b)) =
      (\<lambda>b. map_option (kept_alive (b \<in> cs_handling c)) (srv_sessions (cs_server c) b))(a := None)"
    by (auto simp: fun_eq_iff)
  moreover have "settle (unsettled c') (sw_stats (delete_HttpSession v)) =
      sw_stats (delete_HttpSession (settle_world (unsettled c) (session_world_of (cs_server c) s)))"
    using v(2) settle_stats(1) [of "unsettled c'" "sw_stats v"]
    by (simp add: delete_HttpSession_def doClose_def session_world_of_def flip: settle_update)
  ultimately show ?thesis
    using last v(1) unfolding settled_def c'
    by (simp add: put_session_def session_world_of_def)
qed

lemma read_sim:
  assumes "\<not> srv_io_stopped (cs_server c)" "a \<notin> cs_handling c" "srv_sessions (cs_server c) a = Some s"
    "Async_Read \<in> set (ses_pending s)"
    and "onRead_begin B (srv_opts (cs_server c)) (srv_router (cs_server c)) now ec
      (read_world B ec msg (session_world_of (cs_server c) s)) = Some (hr, w)"
  shows "server_step B keep_writer (settled c)
    (put_session a (settle_world (unsettled c) (if hr = None then w else dispatch_end w)) (settled c))"
  using assms
  by (intro settled_moved [OF settled_session [of c a s]] read_step) (simp_all add: session_world_of_def)

lemma leave_sim:
  assumes "a \<in> cs_handling c" "srv_sessions (cs_server c) a = Some s" "sw_session v = s"
    "settle (unsettled c') (sw_stats v) = settle (unsettled c) (srv_statistics (cs_server c))"
    "cs_server c' = put_session a v (cs_server c)" "cs_handling c' = cs_handling c - {a}"
  shows "server_step B keep_writer (settled c) (settled c') \<or> settled c' = settled c"
proof (cases "ses_writers s = 0 \<and> ses_pending s = []")
  case False
  then show ?thesis using assms settled_leave [of c a s v c'] by blast
next
  case True
  let ?s = "s\<lparr>ses_writers := 1\<rparr>" and ?n = "unsettled c" and ?srv = "cs_server c"
  have same: "s\<lparr>ses_writers := 0\<rparr> = s" using True by (cases s) simp
  have "server_step B keep_writer (settled c) (put_session a (settle_world ?n (session_world_of ?srv s)) (settled c))"
    using session_step.writer_dropped [of "settle_world ?n (session_world_of ?srv ?s)" B "srv_opts ?srv"
        "srv_router ?srv" keep_writer] True assms(1,2)
    by (intro settled_moved [where s = ?s]) (simp_all add: session_world_of_def kept_alive_def same)
  with True assms settled_leave_last [of s v c' c a] show ?thesis by metis
qed

lemma write_sim:
  assumes "\<not> srv_io_stopped (cs_server c)" "a \<notin> cs_handling c" "srv_sessions (cs_server c) a = Some s"
    "Async_Write m ka \<in> set (ses_pending s)"
  shows "server_step B keep_writer (settled c)
    (put_session a (settle_world (unsettled c) (onWrite B (srv_opts (cs_server c)) ka ec
       (write_world ec (Async_Write m ka) (session_world_of (cs_server c) s)))) (settled c))"
  using assms session_step.write_completed [of m ka
      "settle_world (unsettled c) (session_world_of (cs_server c) s)" B
      "srv_opts (cs_server c)" "srv_router (cs_server c)" keep_writer ec]
  by (intro settled_moved [OF settled_session [of c a s]])
    (simp_all add: session_world_of_def write_world_def flip: settle_onWrite)

lemma send_sim:
  assumes "srv_sessions (cs_server c) a = Some s" "0 < ses_writers s"
  shows "server_step B keep_writer (settled c)
    (put_session a (settle_world (unsettled c) (writeResponse B (srv_opts (cs_server c)) rsp
       (upd_session (\<lambda>s. s\<lparr>ses_writers := ses_writers s - 1\<rparr>) (session_world_of (cs_server c) s)))) (settled c))"
  using assms session_step.writer_sends [of
      "settle_world (unsettled c) (session_world_of (cs_server c) s)" B
      "srv_opts (cs_server c)" "srv_router (cs_server c)" keep_writer rsp]
  by (intro settled_moved [OF settled_session [of c a s]])
    (simp_all add: session_world_of_def writeResponse_def doWrite_def)

lemma drop_sim:
  assumes "srv_sessions (cs_server c) a = Some s" "0 < ses_writers s"
    and c': "c' = c\<lparr>cs_server := (if a \<in> cs_handling c then hold_session a else put_session a)
      (upd_session (\<lambda>s. s\<lparr>ses_writers := ses_writers s - 1\<rparr>) (session_world_of (cs_server c) s)) (cs_server c)\<rparr>"
  shows "server_step B keep_writer (settled c) (settled c') \<or> settled c' = settled c"
proof (cases "a \<in> cs_handling c \<and> ses_writers s = 1 \<and> ses_pending s = []")
  case True
  then have "settled c' = settled c"
    using assms by (auto simp: settled_def hold_session_def session_world_of_def kept_alive_def fun_eq_iff)
  then show ?thesis ..
next
  case False
  let ?v = "session_world_of (cs_server c) s" and ?n = "unsettled c"
  have "server_step B keep_writer (settled c)
      (put_session a (settle_world ?n (upd_session (\<lambda>s. s\<lparr>ses_writers := ses_writers s - 1\<rparr>) ?v)) (settled c))"
    using assms session_step.writer_dropped [of "settle_world ?n ?v" B "srv_opts (cs_server c)"
        "srv_router (cs_server c)" keep_writer]
    by (intro settled_moved [OF settled_session [of c a s]]) (simp_all add: session_world_of_def)
  with False assms show ?thesis
    by (cases "a \<in> cs_handling c") (auto simp: settled_put settled_hold session_world_of_def)
qed

lemma strand_sim:
  assumes inv: "conc_inv c" and step: "strand_step B l c c'"
  shows "server_step B keep_writer (settled c) (settled c') \<or> settled c' = settled c"
  using step
proof cases
  case (strand_accept ec)
  then show ?thesis
    using server_step.accept_completed [of "settled c" B keep_writer ec]
    by (simp add: settled_accept [OF inv])
next
  case (strand_read srv a s now ec msg w)
  then show ?thesis using read_sim [of c a s B now ec msg None w] by (simp add: settled_put)
next
  case (strand_handle srv a s now ec msg h request w)
  then show ?thesis
    using read_sim [of c a s B now ec msg "Some (h, request)" w] conc_inv_finite [OF inv]
    by (auto dest!: onRead_begin_writer simp: settled_enter)
next
  case (strand_return srv a s)
  let ?v = "dispatch_end (session_world_of srv s)"
  have "settle (unsettled c') (sw_stats ?v) = settle (unsettled c) (srv_statistics (cs_server c))"
    using strand_return leave_count [OF inv, of a] by (simp add: settle_Suc session_world_of_def)
  with strand_return show ?thesis by (intro leave_sim [of a c s ?v]) (simp_all add: session_world_of_def)
next
  case (strand_write srv a s m ka ec)
  then show ?thesis using write_sim [of c a s m ka B ec] by (simp add: settled_put)
qed

lemma settled_step:
  assumes inv: "conc_inv c" and step: "concurrent_step B c c'"
  shows "server_step B keep_writer (settled c) (settled c') \<or> settled c' = settled c"
  using step
proof cases
  case (conc_strand l)
  with strand_sim [OF inv] show ?thesis by blast
next
  case (conc_send srv a s rsp)
  then show ?thesis
    using send_sim [of c a s B rsp] by (simp add: settled_hold writeResponse_def doWrite_def)
next
  case (conc_drop srv a s)
  then show ?thesis using drop_sim [of c a s c' B] by simp
qed

lemma settled_start: "concurrent_start c \<Longrightarrow> server_started (settled c)"
proof -
  assume c: "concurrent_start c"
  then have "srv_sessions (cs_server c) = (\<lambda>a. None)"
    by (auto simp: concurrent_start_def server_started_def server_run_None_iff running_state_def
        new_HttpServerImpl_def)
  then have "settled c = cs_server c"
    using c by (simp add: settled_def concurrent_start_def settle_def)
  with c show ?thesis by (simp add: concurrent_start_def)
qed

interpretation conc: refinement_system concurrent_start "concurrent_step B" conc_inv
    server_started "server_step B keep_writer" settled
  for B :: "'m boost"
  by unfold_locales (fact conc_inv_start conc_inv_step settled_start settled_step)+

subsection \<open>Handlers running\<close>

text \<open>A session inside \<open>handle\<close> does not read the next request.\<close>

definition handling_idle :: "('m, 'h) concurrent_server \<Rightarrow> bool" where
  "handling_idle c \<longleftrightarrow> (\<forall>a s. a \<in> cs_handling c \<longrightarrow> srv_sessions (cs_server c) a = Some s \<longrightarrow>
     Async_Read \<notin> set (ses_pending s))"

lemma one_reply_keep: "one_reply keep_writer"
  by (simp add: one_reply_def)

lemma settled_one:
  assumes "server_inv B (settled c)" and "srv_sessions (cs_server c) a = Some s"
  shows "length (ses_pending s) + ses_writers s \<le> 1
    \<and> (a \<notin> cs_handling c \<longrightarrow> length (ses_pending s) + ses_writers s = 1)"
proof -
  have "\<forall>b t. srv_sessions (settled c) b = Some t \<longrightarrow> live_core B (srv_opts (settled c)) t"
    using assms(1) unfolding server_inv_def server_core_def by blast
  then have "live_core B (srv_opts (settled c)) (kept_alive (a \<in> cs_handling c) s)"
    using assms(2) by (metis settled_sels(7) option.simps(9))
  from live_core_one [OF this] show ?thesis by (auto simp: kept_alive_def split: if_splits)
qed

lemma onAccept_other:
  "a \<noteq> srv_next srv \<Longrightarrow> srv_sessions (onAccept B ec srv) a = srv_sessions srv a"
  by (simp add: server_simps start_simps Let_def)

lemma handling_idle_strand:
  assumes sinv: "server_inv B (settled c)" and inv: "conc_inv c" and idle: "handling_idle c"
    and step: "strand_step B l c c'"
  shows "handling_idle c'"
  using step
proof cases
  case (strand_accept ec)
  have "\<forall>a \<in> cs_handling c. a \<noteq> srv_next (cs_server c)" using inv by (auto simp: conc_inv_def)
  with strand_accept idle show ?thesis by (auto simp: handling_idle_def onAccept_other)
next
  case (strand_handle srv a s now ec msg h request w)
  have "ses_pending s = [Async_Read]"
    using settled_one [OF sinv, of a s] strand_handle by (cases "ses_pending s") auto
  then have "ses_pending (sw_session w) = []" "0 < ses_writers (sw_session w)"
    using onRead_begin_writer [OF strand_handle(8)] by (auto simp: read_world_def session_world_of_def)
  with strand_handle idle show ?thesis by (auto simp: handling_idle_def put_session_def)
qed (use idle in \<open>auto simp: handling_idle_def put_session_def session_world_of_def split: if_splits\<close>)

lemma handling_idle_step:
  assumes "server_inv B (settled c)" "conc_inv c" and idle: "handling_idle c"
    and step: "concurrent_step B c c'"
  shows "handling_idle c'"
  using step
proof cases
  case (conc_strand l)
  with handling_idle_strand [OF assms(1-3)] show ?thesis by blast
qed (use idle in \<open>auto simp: handling_idle_def put_session_def hold_session_def session_world_of_def
    writeResponse_def doWrite_def split: if_splits\<close>)

interpretation running: invariant_system concurrent_start "concurrent_step B"
    "\<lambda>c. response_laws B \<longrightarrow> conc_inv c \<and> server_inv B (settled c) \<and> handling_idle c"
  for B :: "'m boost"
proof
  fix c :: "('m, 'h) concurrent_server"
  assume "concurrent_start c"
  then show "response_laws B \<longrightarrow> conc_inv c \<and> server_inv B (settled c) \<and> handling_idle c"
    using conc_inv_start server_inv_started [OF settled_start] by (auto simp: handling_idle_def concurrent_start_def)
next
  fix c c' :: "('m, 'h) concurrent_server"
  assume inv: "response_laws B \<longrightarrow> conc_inv c \<and> server_inv B (settled c) \<and> handling_idle c"
    and step: "concurrent_step B c c'"
  show "response_laws B \<longrightarrow> conc_inv c' \<and> server_inv B (settled c') \<and> handling_idle c'"
    using inv conc_inv_step [OF _ step] handling_idle_step [OF _ _ _ step] settled_step [OF _ step]
      server_inv_step [OF _ _ one_reply_keep, of B "settled c" "settled c'"]
    by metis
qed

text \<open>
  C36. Letting handlers run while other things happen adds no behaviour: whatever accepts,
  completions, answers and dropped writers interleave with handlers that have not returned,
  the server, with those handlers taken to have returned, is one that the atomic events
  reach, with handlers that keep the writer. So what holds of every state of
  \<open>server_step\<close> holds of the concurrent server up to the counters of the running handlers.
\<close>

theorem concurrent_refines_server:
  assumes "reach concurrent_start (concurrent_step B) c"
  shows "reach server_started (server_step B keep_writer) (settled c)"
  using assms by (rule conc.reach_abs)

definition demo_concurrent :: "(ref_message, nat) concurrent_server" where
  "demo_concurrent = \<lparr>cs_server = demo_connected, cs_handling = {}\<rparr>"

lemma demo_concurrent_reachable: "reach concurrent_start (concurrent_step ref_boost) demo_concurrent"
proof -
  let ?c = "\<lparr>cs_server = running_state demo_server, cs_handling = {}\<rparr>"
  have "reach concurrent_start (concurrent_step ref_boost) ?c"
    by (rule reach_start) (simp add: concurrent_start_def demo_started)
  moreover have "concurrent_step ref_boost ?c demo_concurrent"
    using conc_strand [OF strand_accept [of ?c ref_boost Success]]
    by (simp add: demo_concurrent_def demo_connected_def running_state_def)
  ultimately show ?thesis by (rule reach_step)
qed

theorem concurrent_refines_server_witness:
  "reach server_started (server_step ref_boost keep_writer) (settled demo_concurrent)"
  by (rule concurrent_refines_server [OF demo_concurrent_reachable])

lemma handler_running:
  "\<exists>c :: (ref_message, nat) concurrent_server.
     reach concurrent_start (concurrent_step ref_boost) c \<and> cs_handling c = {0}"
  using demo_handling by (metis reach_start reach_step conc_strand)

text \<open>
  C37. While handlers run, the statistics \<open>getHttpStatistics\<close> returns, read at one moment, are
  exact: the number of working handlers is the number of sessions inside \<open>handle\<close>, every
  request read has been handled or is being handled, and the session count is the number of
  live sessions (all modulo the counter's width). Every session inside \<open>handle\<close> is alive and
  has no read outstanding, so the request its handler was given is not overwritten; no session
  ever has more than one operation outstanding or answer owed, and one outside \<open>handle\<close> has
  exactly one.
\<close>

theorem concurrent_statistics:
  assumes "reach concurrent_start (concurrent_step B) c" and "response_laws B"
    and "srv = cs_server c" and "st = getHttpStatistics srv"
    and "n = card (cs_handling c)"
  shows "cs_handling c \<subseteq> dom (srv_sessions srv) \<and> finite (dom (srv_sessions srv))
    \<and> hs_working_handler_cnt st = of_nat n
    \<and> hs_handler_request_cnt st + of_nat n = hs_read_success_cnt st
    \<and> hs_session_cnt st = of_nat (card (dom (srv_sessions srv)))
    \<and> srv_accepts srv = 1
    \<and> (\<forall>a s. srv_sessions srv a = Some s \<longrightarrow>
         length (ses_pending s) + ses_writers s \<le> 1
         \<and> (a \<in> cs_handling c \<longrightarrow> Async_Read \<notin> set (ses_pending s))
         \<and> (a \<notin> cs_handling c \<longrightarrow> length (ses_pending s) + ses_writers s = 1))"
proof -
  from running.reach_inv [OF assms(1)] assms(2)
  have inv: "conc_inv c" "server_inv B (settled c)" "handling_idle c" by auto
  have dom: "dom (srv_sessions (settled c)) = dom (srv_sessions srv)" by (auto simp: assms(3))
  have "finite (dom (srv_sessions srv))" and "cs_handling c \<subseteq> dom (srv_sessions srv)"
    using inv(1) by (auto simp: conc_inv_def assms(3) intro: finite_subset)
  moreover have "hs_working_handler_cnt st = of_nat n
      \<and> hs_handler_request_cnt st + of_nat n = hs_read_success_cnt st
      \<and> hs_session_cnt st = of_nat (card (dom (srv_sessions srv))) \<and> srv_accepts srv = 1"
    using inv(2) dom
    by (simp add: server_inv_def server_core_def assms(3-5) getHttpStatistics_def Let_def settle_def
        del: of_nat_add)
  ultimately show ?thesis
    using settled_one [OF inv(2)] inv(3) by (auto simp: handling_idle_def assms(3))
qed

theorem concurrent_statistics_witness:
  "\<exists>c c' :: (ref_message, nat) concurrent_server. reach concurrent_start (concurrent_step ref_boost) c
     \<and> hs_working_handler_cnt (getHttpStatistics (cs_server c)) = 1
     \<and> concurrent_step ref_boost c c' \<and> cs_handling c' = {}
     \<and> hs_working_handler_cnt (getHttpStatistics (cs_server c')) = 0
     \<and> hs_handler_request_cnt (getHttpStatistics (cs_server c')) =
         hs_read_success_cnt (getHttpStatistics (cs_server c'))"
proof -
  obtain c :: "(ref_message, nat) concurrent_server" where
    c: "reach concurrent_start (concurrent_step ref_boost) c" "cs_handling c = {0}"
    using handler_running by blast
  note now = concurrent_statistics [OF c(1) ref_response_laws refl refl refl]
  then obtain s where "srv_sessions (cs_server c) 0 = Some s" using c by auto
  from conc_strand [OF strand_return [OF refl _ this, of ref_boost]] c obtain c' where
    c': "concurrent_step ref_boost c c'" "cs_handling c' = {}" by auto
  note later = concurrent_statistics [OF reach_step [OF c(1) c'(1)] ref_response_laws refl refl refl]
  from now later c c' show ?thesis by (intro exI [where x = c] exI [where x = c']) simp
qed

end
