(* ===== verification/Http_Writer.thy ===== *)
theory Http_Writer
  imports Http_Strand
begin

section \<open>Response writers and the life time of sessions (http\_response.h, http\_response.cpp)\<close>

text \<open>
  A handler gets an \<open>HttpResponseWriter\<close>, which shares the ownership of its session. It may copy
  it, send through it any number of times, keep it as long as it likes and use it from any
  thread, also after the server was stopped. Here writers are objects of their own: a
  writer is a number, mapped to the address of its session. The session counts the
  writers that share it (\<open>ses_writers\<close>); with its outstanding operations and the completion
  handler that is inside \<open>handle\<close> these are its owners. \<open>None\<close> is the use of a writer whose
  session is gone.
\<close>

subsection \<open>Writers\<close>

record ('m, 'h) writer_server =
  ws_conc :: "('m, 'h) concurrent_server"
  ws_writers :: "nat \<rightharpoonup> nat"
  ws_next :: nat

abbreviation ws_server :: "('m, 'h) writer_server \<Rightarrow> ('m, 'h) http_server_impl" where
  "ws_server ws \<equiv> cs_server (ws_conc ws)"

abbreviation ws_put :: "('m, 'h) http_server_impl \<Rightarrow> ('m, 'h) writer_server \<Rightarrow> ('m, 'h) writer_server" where
  "ws_put srv ws \<equiv> ws\<lparr>ws_conc := (ws_conc ws)\<lparr>cs_server := srv\<rparr>\<rparr>"

text \<open>\<open>*session_\<close>: the session of a writer, with its address.\<close>

definition writer_session :: "nat \<Rightarrow> ('m, 'h) writer_server \<Rightarrow> (nat \<times> 'm http_session) option" where
  "writer_session w ws =
     (case ws_writers ws w of
        None \<Rightarrow> None
      | Some a \<Rightarrow> map_option (Pair a) (srv_sessions (ws_server ws) a))"

text \<open>The constructor stores the shared pointer it is given; \<open>shared_from_this\<close> has counted it.\<close>

definition new_HttpResponseWriter :: "nat \<Rightarrow> ('m, 'h) writer_server \<Rightarrow> ('m, 'h) writer_server" where
  "new_HttpResponseWriter a ws =
     ws\<lparr>ws_writers := (ws_writers ws)(ws_next ws \<mapsto> a), ws_next := ws_next ws + 1\<rparr>"

definition copy_HttpResponseWriter :: "nat \<Rightarrow> ('m, 'h) writer_server \<Rightarrow> ('m, 'h) writer_server option" where
  "copy_HttpResponseWriter w ws =
     (case writer_session w ws of
        None \<Rightarrow> None
      | Some (a, s) \<Rightarrow>
          Some (new_HttpResponseWriter a (ws_put (hold_session a
            (session_world_of (ws_server ws) (s\<lparr>ses_writers := ses_writers s + 1\<rparr>)) (ws_server ws)) ws)))"

definition HttpResponseWriter_send ::
    "'m boost \<Rightarrow> http_response \<Rightarrow> nat \<Rightarrow> ('m, 'h) writer_server \<Rightarrow> ('m, 'h) writer_server option" where
  "HttpResponseWriter_send B rsp w ws =
     (case writer_session w ws of
        None \<Rightarrow> None
      | Some (a, s) \<Rightarrow>
          Some (ws_put (hold_session a (writeResponse B (srv_opts (ws_server ws)) rsp
            (session_world_of (ws_server ws) s)) (ws_server ws)) ws))"

definition delete_HttpResponseWriter :: "nat \<Rightarrow> ('m, 'h) writer_server \<Rightarrow> ('m, 'h) writer_server option" where
  "delete_HttpResponseWriter w ws =
     (case writer_session w ws of
        None \<Rightarrow> None
      | Some (a, s) \<Rightarrow>
          Some ((ws_put ((if a \<in> cs_handling (ws_conc ws) then hold_session a else put_session a)
            (session_world_of (ws_server ws) (s\<lparr>ses_writers := ses_writers s - 1\<rparr>)) (ws_server ws)) ws)
              \<lparr>ws_writers := (ws_writers ws)(w := None)\<rparr>))"

subsection \<open>Steps\<close>

text \<open>
  \<open>stop\<close> may be called at any time; afterwards nothing completes any more, but handlers that run
  go on and writers can be used.
\<close>

inductive writer_step ::
    "'m boost \<Rightarrow> ('m, 'h) writer_server \<Rightarrow> ('m, 'h) writer_server \<Rightarrow> bool"
  for B :: "'m boost" where
  writer_strand:
    "strand_step B None (ws_conc ws) c \<Longrightarrow> writer_step B ws (ws\<lparr>ws_conc := c\<rparr>)"
| writer_made:
    "strand_step B (Some a) (ws_conc ws) c \<Longrightarrow>
     writer_step B ws (new_HttpResponseWriter a (ws\<lparr>ws_conc := c\<rparr>))"
| writer_stopped:
    "writer_step B ws (ws_put (server_stop (ws_server ws)) ws)"
| writer_copied:
    "w \<in> dom (ws_writers ws) \<Longrightarrow> copy_HttpResponseWriter w ws = Some ws' \<Longrightarrow> writer_step B ws ws'"
| writer_sent:
    "w \<in> dom (ws_writers ws) \<Longrightarrow> HttpResponseWriter_send B rsp w ws = Some ws' \<Longrightarrow> writer_step B ws ws'"
| writer_deleted:
    "w \<in> dom (ws_writers ws) \<Longrightarrow> delete_HttpResponseWriter w ws = Some ws' \<Longrightarrow> writer_step B ws ws'"

definition writer_start :: "('m, 'h) writer_server \<Rightarrow> bool" where
  "writer_start ws \<longleftrightarrow> concurrent_start (ws_conc ws) \<and> ws_writers ws = Map.empty"

subsection \<open>Owners\<close>

definition has_owner :: "'m http_session \<Rightarrow> bool \<Rightarrow> bool" where
  "has_owner s handling \<longleftrightarrow> ses_pending s \<noteq> [] \<or> ses_writers s \<noteq> 0 \<or> handling"

definition owned :: "(nat \<rightharpoonup> 'm http_session) \<Rightarrow> nat set \<Rightarrow> (nat \<rightharpoonup> nat) \<Rightarrow> bool" where
  "owned T H W \<longleftrightarrow> finite (dom W) \<and> ran W \<subseteq> dom T
     \<and> (\<forall>a s. T a = Some s \<longrightarrow> ses_writers s = card {w. W w = Some a} \<and> has_owner s (a \<in> H))"

lemma has_owner_pending: "ses_pending s \<noteq> [] \<Longrightarrow> has_owner s handling"
  by (simp add: has_owner_def)

lemma finite_writers: "finite (dom W) \<Longrightarrow> finite {w. W w = Some a}"
  by (rule finite_subset [of _ "dom W"]) auto

text \<open>One session is changed, with its writers; it goes when it has no owner left.\<close>

lemma owned_update:
  assumes own: "owned T H W" and W: "finite (dom W')" "\<And>b. b \<noteq> a \<Longrightarrow> {w. W' w = Some b} = {w. W w = Some b}"
    and s': "ses_writers s' = card {w. W' w = Some a}" and H: "H - {a} \<subseteq> H'"
    and T': "T' = (if has_owner s' (a \<in> H') then T(a \<mapsto> s') else T(a := None))"
  shows "owned T' H' W'"
proof -
  have "b \<in> dom T'" if "W' w = Some b" for w b
  proof (cases "b = a")
    case True
    with that have "card {w. W' w = Some a} \<noteq> 0" using finite_writers [OF W(1), of a] by auto
    with True s' T' show ?thesis by (simp add: has_owner_def)
  next
    case False
    with that W(2) have "W w = Some b" by blast
    with own have "b \<in> dom T" by (auto simp: owned_def ran_def)
    with False T' show ?thesis by auto
  qed
  then have "ran W' \<subseteq> dom T'" by (auto simp: ran_def)
  moreover have "ses_writers s = card {w. W' w = Some b} \<and> has_owner s (b \<in> H')"
    if "T' b = Some s" for b s
  proof (cases "b = a")
    case True
    with that T' s' show ?thesis by (auto split: if_splits)
  next
    case False
    with that T' have "T b = Some s" by (auto split: if_splits)
    with own have "ses_writers s = card {w. W w = Some b}"
      "has_owner s (b \<in> H)" unfolding owned_def by blast+
    moreover have "b \<in> H \<longrightarrow> b \<in> H'" using False H by blast
    ultimately show ?thesis using W(2) [OF False] by (auto simp: has_owner_def)
  qed
  ultimately show ?thesis using W(1) by (auto simp: owned_def)
qed

text \<open>The table of sessions after \<open>put_session\<close> and \<open>hold_session\<close>.\<close>

lemma owned_put:
  assumes "owned (srv_sessions srv) H W" and "finite (dom W')"
    and "\<And>b. b \<noteq> a \<Longrightarrow> {w. W' w = Some b} = {w. W w = Some b}"
    and "ses_writers (sw_session v) = card {w. W' w = Some a}" and "H' = H - {a}"
  shows "owned (srv_sessions (put_session a v srv)) H' W'"
  by (rule owned_update [where a = a, OF assms(1-4)]) (auto simp: put_session_def has_owner_def assms(5))

lemma owned_hold:
  assumes "owned (srv_sessions srv) H W" and "finite (dom W')"
    and "\<And>b. b \<noteq> a \<Longrightarrow> {w. W' w = Some b} = {w. W w = Some b}"
    and "ses_writers (sw_session v) = card {w. W' w = Some a}" and "H - {a} \<subseteq> H'"
    and "ses_pending (sw_session v) \<noteq> [] \<or> ses_writers (sw_session v) \<noteq> 0 \<or> a \<in> H'"
  shows "owned (srv_sessions (hold_session a v srv)) H' W'"
  by (rule owned_update [where a = a, OF assms(1-5)]) (use assms(6) in \<open>auto simp: hold_session_def has_owner_def\<close>)

subsection \<open>Counters\<close>

definition requests_ok :: "nat \<Rightarrow> http_statistics_internal \<Rightarrow> bool" where
  "requests_ok n t \<longleftrightarrow> working_handler_cnt t = of_nat n \<and> handle_request_cnt t + of_nat n = read_success_cnt t"

definition sessions_ok :: "('m, 'h) http_server_impl \<Rightarrow> bool" where
  "sessions_ok srv \<longleftrightarrow> finite (dom (srv_sessions srv))
     \<and> session_cnt (srv_statistics srv) = of_nat (card (dom (srv_sessions srv)))"

lemma onRead_begin_effect:
  assumes "onRead_begin B opts router now ec w = Some (hr, w')"
  shows "session_cnt (sw_stats w') = session_cnt (sw_stats w)
    \<and> ses_writers (sw_session w') = ses_writers (sw_session w) + (if hr = None then 0 else 1)
    \<and> (requests_ok n (sw_stats w) \<longrightarrow> requests_ok (if hr = None then n else Suc n) (sw_stats w'))"
  using assms
  by (auto simp: onRead_begin_def process_begin_def dispatch_begin_def refuse_def clear_request_body_def
      count_handled_def requests_ok_def Let_def algebra_simps
      split: if_splits sum.splits option.splits prod.splits)

lemma onWrite_effect:
  "session_cnt (sw_stats (onWrite B opts ka ec w)) = session_cnt (sw_stats w)
   \<and> ses_writers (sw_session (onWrite B opts ka ec w)) = ses_writers (sw_session w)
   \<and> requests_ok n (sw_stats (onWrite B opts ka ec w)) = requests_ok n (sw_stats w)"
  by (simp add: onWrite_def doRead_def requests_ok_def)

lemma requests_return: "requests_ok (Suc n) (sw_stats w) \<Longrightarrow> requests_ok n (sw_stats (dispatch_end w))"
  by (simp add: requests_ok_def dispatch_end_def count_handled_def add.assoc)

lemma requests_put [simp]:
  "requests_ok n (srv_statistics (put_session a w srv)) = requests_ok n (sw_stats w)"
  "requests_ok n (srv_statistics (hold_session a w srv)) = requests_ok n (sw_stats w)"
  by (simp_all add: put_session_def hold_session_def delete_HttpSession_def requests_ok_def)

lemma sessions_ok_put:
  assumes "sessions_ok srv" and s: "srv_sessions srv a = Some s"
    and cnt: "session_cnt (sw_stats w) = session_cnt (srv_statistics srv)"
  shows "sessions_ok (put_session a w srv)" and "sessions_ok (hold_session a w srv)"
proof -
  let ?D = "dom (srv_sessions srv)"
  have fin: "finite ?D" and mem: "a \<in> ?D" using assms by (auto simp: sessions_ok_def)
  have "of_nat (card ?D) - 1 = (of_nat (card (?D - {a})) :: u32)"
    unfolding card_Suc_Diff1 [OF fin mem, symmetric] by simp
  then show "sessions_ok (put_session a w srv)"
    using assms fin mem by (auto simp: sessions_ok_def put_session_def delete_HttpSession_def insert_absorb)
  show "sessions_ok (hold_session a w srv)"
    using assms fin mem by (auto simp: sessions_ok_def hold_session_def insert_absorb)
qed

lemma requests_accept [simp]: "requests_ok n (srv_statistics (onAccept B ec srv)) = requests_ok n (srv_statistics srv)"
  by (simp add: requests_ok_def server_simps start_simps Let_def)

lemma sessions_ok_accept:
  assumes "sessions_ok srv" and "srv_next srv \<notin> dom (srv_sessions srv)"
  shows "sessions_ok (onAccept B ec (srv\<lparr>srv_accepts := n\<rparr>))"
proof (cases "ec = Success")
  case True
  with assms show ?thesis by (simp add: sessions_ok_def onAccept_new [OF refl])
next
  case False
  with assms show ?thesis by (simp add: sessions_ok_def onAccept_def doAccept_def)
qed

subsection \<open>The invariant\<close>

definition writer_inv :: "('m, 'h) writer_server \<Rightarrow> bool" where
  "writer_inv ws \<longleftrightarrow> conc_inv (ws_conc ws) \<and> dom (ws_writers ws) \<subseteq> {..<ws_next ws}
     \<and> owned (srv_sessions (ws_server ws)) (cs_handling (ws_conc ws)) (ws_writers ws)
     \<and> sessions_ok (ws_server ws)
     \<and> requests_ok (card (cs_handling (ws_conc ws))) (srv_statistics (ws_server ws))"

lemma writer_inv_start: "writer_start ws \<Longrightarrow> writer_inv ws"
  using conc_inv_start
  by (auto simp: writer_start_def writer_inv_def concurrent_start_def server_started_def server_run_None_iff
      running_state_def new_HttpServerImpl_def owned_def sessions_ok_def requests_ok_def zero_statistics_def)

lemma owned_writers: "owned T H W \<Longrightarrow> T a = Some s \<Longrightarrow> ses_writers s = card {w. W w = Some a}"
  unfolding owned_def by blast

text \<open>The steps without a new writer.\<close>

lemma owned_accept:
  assumes "owned (srv_sessions srv) H W" and "srv_next srv \<notin> dom (srv_sessions srv)" "H \<subseteq> dom (srv_sessions srv)"
  shows "owned (srv_sessions (onAccept B ec (srv\<lparr>srv_accepts := n\<rparr>))) H W"
proof (cases "ec = Success")
  case True
  have "{w. W w = Some (srv_next srv)} = {}" using assms by (auto simp: owned_def ran_def)
  with assms True show ?thesis
    by (auto simp: owned_def onAccept_new [OF refl] start_simps has_owner_pending)
next
  case False
  with assms show ?thesis by (simp add: onAccept_def doAccept_def)
qed

lemma writer_inv_strand:
  assumes inv: "writer_inv ws" and step: "strand_step B None (ws_conc ws) c"
  shows "writer_inv (ws\<lparr>ws_conc := c\<rparr>)"
proof -
  let ?c = "ws_conc ws" and ?W = "ws_writers ws"
  have c: "conc_inv ?c" and own: "owned (srv_sessions (cs_server ?c)) (cs_handling ?c) ?W"
    and ses: "sessions_ok (cs_server ?c)"
    and req: "requests_ok (card (cs_handling ?c)) (srv_statistics (cs_server ?c))"
    and W: "finite (dom ?W)" using inv by (auto simp: writer_inv_def owned_def)
  have leave: "requests_ok (Suc (card (cs_handling ?c - {a}))) (srv_statistics (cs_server ?c))"
    if "a \<in> cs_handling ?c" for a
    using req unfolding leave_count [OF c that] by simp
  have "owned (srv_sessions (cs_server c)) (cs_handling c) ?W \<and> sessions_ok (cs_server c)
    \<and> requests_ok (card (cs_handling c)) (srv_statistics (cs_server c))"
    using step
  proof cases
    case (strand_accept ec)
    have "srv_next (cs_server ?c) \<notin> dom (srv_sessions (cs_server ?c))" using c by (auto simp: conc_inv_def)
    with strand_accept c own ses req show ?thesis
      by (auto simp: owned_accept sessions_ok_accept conc_inv_def)
  next
    case (strand_read srv a s now ec msg w)
    note eff = onRead_begin_effect [OF strand_read(7), of "card (cs_handling ?c)"]
    have "owned (srv_sessions (put_session a w srv)) (cs_handling ?c) ?W"
      using strand_read eff W own owned_writers [OF own, of a s]
      by (intro owned_put [OF own [folded strand_read(3)]]) (auto simp: session_world_of_def)
    with strand_read eff ses req sessions_ok_put [OF ses, of a s w] show ?thesis
      by (auto simp: session_world_of_def)
  next
    case (strand_return srv a s)
    let ?v = "dispatch_end (session_world_of srv s)"
    have "requests_ok (card (cs_handling ?c - {a})) (sw_stats ?v)"
      using strand_return leave [of a] by (intro requests_return) (simp add: session_world_of_def)
    moreover have "owned (srv_sessions (put_session a ?v srv)) (cs_handling ?c - {a}) ?W"
      using strand_return W owned_writers [OF own, of a s]
      by (intro owned_put [OF own [folded strand_return(2)]]) (auto simp: session_world_of_def dispatch_end_def count_handled_def)
    ultimately show ?thesis
      using strand_return sessions_ok_put [OF ses, of a s ?v]
      by (auto simp: dispatch_end_def count_handled_def session_world_of_def)
  next
    case (strand_write srv a s m ka ec)
    let ?v = "onWrite B (srv_opts srv) ka ec (write_world ec (Async_Write m ka) (session_world_of srv s))"
    have "owned (srv_sessions (put_session a ?v srv)) (cs_handling ?c) ?W"
      using strand_write W owned_writers [OF own, of a s]
      by (intro owned_put [OF own [folded strand_write(3)]]) (auto simp: session_world_of_def onWrite_effect)
    then show ?thesis
      using strand_write req sessions_ok_put [OF ses, of a s ?v]
      by (auto simp: onWrite_effect session_world_of_def)
  qed
  with conc_inv_strand [OF c step] inv show ?thesis by (simp add: writer_inv_def)
qed

text \<open>The writers of a session when one is added or removed.\<close>

lemma writers_add:
  assumes "finite (dom W)" and "n \<notin> dom W"
  shows "card {w. (W(n \<mapsto> a)) w = Some a} = Suc (card {w. W w = Some a})"
    and "b \<noteq> a \<Longrightarrow> {w. (W(n \<mapsto> a)) w = Some b} = {w. W w = Some b}"
proof -
  have "{w. (W(n \<mapsto> a)) w = Some a} = insert n {w. W w = Some a}" by auto
  moreover have "n \<notin> {w. W w = Some a}" using assms(2) by auto
  ultimately show "card {w. (W(n \<mapsto> a)) w = Some a} = Suc (card {w. W w = Some a})"
    using finite_writers [OF assms(1)] by simp
  show "b \<noteq> a \<Longrightarrow> {w. (W(n \<mapsto> a)) w = Some b} = {w. W w = Some b}" using assms(2) by auto
qed

lemma writers_del:
  assumes "finite (dom W)" and "W w = Some a"
  shows "card {v. (W(w := None)) v = Some a} = card {v. W v = Some a} - 1"
    and "b \<noteq> a \<Longrightarrow> {v. (W(w := None)) v = Some b} = {v. W v = Some b}"
proof -
  have "{v. (W(w := None)) v = Some a} = {v. W v = Some a} - {w}" by auto
  then show "card {v. (W(w := None)) v = Some a} = card {v. W v = Some a} - 1"
    using assms(2) by simp
  show "b \<noteq> a \<Longrightarrow> {v. (W(w := None)) v = Some b} = {v. W v = Some b}" using assms(2) by auto
qed

lemma writer_inv_made:
  assumes inv: "writer_inv ws" and step: "strand_step B (Some a) (ws_conc ws) c"
  shows "writer_inv (new_HttpResponseWriter a (ws\<lparr>ws_conc := c\<rparr>))"
  using step
proof (rule strand_step_labelE)
  let ?c = "ws_conc ws" and ?W = "ws_writers ws" and ?n = "ws_next ws"
  have own: "owned (srv_sessions (cs_server ?c)) (cs_handling ?c) ?W" and ses: "sessions_ok (cs_server ?c)"
    and cinv: "conc_inv ?c"
    and req: "requests_ok (card (cs_handling ?c)) (srv_statistics (cs_server ?c))"
    and W: "finite (dom ?W)" "?n \<notin> dom ?W" "dom ?W \<subseteq> {..<?n}" using inv by (auto simp: writer_inv_def owned_def)
  let ?srv = "cs_server ?c"
  fix s now ec msg h request w
  assume c: "c = ?c\<lparr>cs_server := put_session a w ?srv, cs_handling := insert a (cs_handling ?c)\<rparr>"
    and a: "a \<notin> cs_handling ?c" and s: "srv_sessions ?srv a = Some s"
    and call: "onRead_begin B (srv_opts ?srv) (srv_router ?srv) now ec
       (read_world B ec msg (session_world_of ?srv s)) = Some (Some (h, request), w)"
  note eff = onRead_begin_effect [OF call, of "card (cs_handling ?c)"]
  have put: "put_session a w ?srv = hold_session a w ?srv"
    using onRead_begin_writer [OF call] by (simp add: put_hold)
  have "owned (srv_sessions (hold_session a w ?srv)) (insert a (cs_handling ?c)) (?W(?n \<mapsto> a))"
    using eff W s owned_writers [OF own, of a s] writers_add [OF W(1,2), of a]
    by (intro owned_hold [OF own]) (auto simp: session_world_of_def)
  moreover have "sessions_ok (hold_session a w ?srv)"
    using sessions_ok_put(2) [OF ses, of a s w] eff s by (simp add: session_world_of_def)
  moreover have "requests_ok (Suc (card (cs_handling ?c))) (sw_stats w)"
    using eff req by (simp add: session_world_of_def)
  moreover have "dom (?W(?n \<mapsto> a)) \<subseteq> {..<Suc ?n}" using W(3) by auto
  ultimately show ?thesis
    using conc_inv_strand [OF cinv step] conc_inv_finite [OF cinv] a
    by (simp add: writer_inv_def new_HttpResponseWriter_def c put)
qed

text \<open>Uses of a writer: the session is the writer's, and the counters of requests do not move.\<close>

lemma writer_sessionE:
  assumes "writer_inv ws" and "writer_session w ws = Some (a, s)"
  shows "ws_writers ws w = Some a" "srv_sessions (ws_server ws) a = Some s" "0 < ses_writers s"
    "ses_writers s = card {v. ws_writers ws v = Some a}"
proof -
  show w: "ws_writers ws w = Some a" "srv_sessions (ws_server ws) a = Some s"
    using assms(2) by (auto simp: writer_session_def split: option.splits)
  have own: "owned (srv_sessions (ws_server ws)) (cs_handling (ws_conc ws)) (ws_writers ws)"
    using assms(1) by (simp add: writer_inv_def)
  then have "finite {v. ws_writers ws v = Some a}" by (auto simp: owned_def intro: finite_writers)
  with w(1) have "card {v. ws_writers ws v = Some a} > 0" by (auto simp: card_gt_0_iff)
  with owned_writers [OF own w(2)] show "0 < ses_writers s" "ses_writers s = card {v. ws_writers ws v = Some a}"
    by simp_all
qed

lemma writer_inv_use:
  assumes inv: "writer_inv ws" and s: "srv_sessions (ws_server ws) a = Some s"
    and srv': "srv' = hold_session a v (ws_server ws) \<or> srv' = put_session a v (ws_server ws) \<and> a \<notin> cs_handling (ws_conc ws)"
    and stats: "sw_stats v = srv_statistics (ws_server ws)"
    and own: "owned (srv_sessions srv') (cs_handling (ws_conc ws)) W" and W: "dom W \<subseteq> {..<n}"
  shows "writer_inv (ws\<lparr>ws_conc := (ws_conc ws)\<lparr>cs_server := srv'\<rparr>, ws_writers := W, ws_next := n\<rparr>)"
proof -
  have c: "conc_inv (ws_conc ws)" and ses: "sessions_ok (ws_server ws)" using inv by (auto simp: writer_inv_def)
  have "conc_inv ((ws_conc ws)\<lparr>cs_server := srv'\<rparr>)"
    using srv' by (auto intro: conc_inv_hold [OF c s] conc_inv_put [OF c s])
  moreover have "sessions_ok srv'" using srv' sessions_ok_put [OF ses s] stats by auto
  ultimately show ?thesis using inv srv' own W stats by (auto simp: writer_inv_def)
qed

lemma writer_inv_step:
  assumes inv: "writer_inv ws" and step: "writer_step B ws ws'"
  shows "writer_inv ws'"
proof -
  let ?W = "ws_writers ws" and ?n = "ws_next ws" and ?H = "cs_handling (ws_conc ws)"
  have own: "owned (srv_sessions (ws_server ws)) ?H ?W"
    and W: "finite (dom ?W)" "?n \<notin> dom ?W" "dom ?W \<subseteq> {..<?n}" using inv by (auto simp: writer_inv_def owned_def)
  from step show ?thesis
  proof cases
    case (writer_strand c)
    with writer_inv_strand [OF inv] show ?thesis by blast
  next
    case (writer_made a c)
    with writer_inv_made [OF inv] show ?thesis by blast
  next
    case writer_stopped
    with inv show ?thesis
      by (auto simp: writer_inv_def conc_inv_def sessions_ok_def server_stop_def Let_def)
  next
    case (writer_copied w)
    then obtain a s where ses: "writer_session w ws = Some (a, s)"
      by (auto simp: copy_HttpResponseWriter_def split: option.splits)
    note e = writer_sessionE [OF inv ses]
    let ?v = "session_world_of (ws_server ws) (s\<lparr>ses_writers := ses_writers s + 1\<rparr>)"
    have "owned (srv_sessions (hold_session a ?v (ws_server ws))) ?H (?W(?n \<mapsto> a))"
      using e W writers_add [OF W(1,2), of a]
      by (intro owned_hold [OF own]) (auto simp: session_world_of_def)
    moreover have "dom (?W(?n \<mapsto> a)) \<subseteq> {..<Suc ?n}" using W(3) by auto
    ultimately show ?thesis
      using writer_inv_use [OF inv e(2), of "hold_session a ?v (ws_server ws)" ?v] writer_copied ses
      by (auto simp: copy_HttpResponseWriter_def new_HttpResponseWriter_def session_world_of_def)
  next
    case (writer_sent w rsp)
    then obtain a s where ses: "writer_session w ws = Some (a, s)"
      by (auto simp: HttpResponseWriter_send_def split: option.splits)
    note e = writer_sessionE [OF inv ses]
    let ?v = "writeResponse B (srv_opts (ws_server ws)) rsp (session_world_of (ws_server ws) s)"
    have "owned (srv_sessions (hold_session a ?v (ws_server ws))) ?H ?W"
      using e W by (intro owned_hold [OF own]) (auto simp: session_world_of_def)
    then show ?thesis
      using writer_inv_use [OF inv e(2), of "hold_session a ?v (ws_server ws)" ?v ?W ?n] writer_sent ses W(3)
      by (simp add: HttpResponseWriter_send_def session_world_of_def)
  next
    case (writer_deleted w)
    then obtain a s where ses: "writer_session w ws = Some (a, s)"
      by (auto simp: delete_HttpResponseWriter_def split: option.splits)
    note e = writer_sessionE [OF inv ses]
    let ?v = "session_world_of (ws_server ws) (s\<lparr>ses_writers := ses_writers s - 1\<rparr>)"
    let ?srv = "(if a \<in> ?H then hold_session a else put_session a) ?v (ws_server ws)"
    have "owned (srv_sessions ?srv) ?H (?W(w := None))"
      using e W writers_del [OF W(1) e(1)]
      by (auto intro!: owned_hold [OF own] owned_put [OF own] simp: session_world_of_def split: if_splits)
    moreover have "dom (?W(w := None)) \<subseteq> {..<?n}" using W(3) by auto
    ultimately have "writer_inv ((ws_put ?srv ws)\<lparr>ws_writers := ?W(w := None), ws_next := ?n\<rparr>)"
      by (intro writer_inv_use [OF inv e(2), of ?srv ?v]) (simp_all add: session_world_of_def)
    then show ?thesis using writer_deleted ses by (auto simp: delete_HttpResponseWriter_def)
  qed
qed

interpretation writers: invariant_system writer_start "writer_step B" writer_inv
  for B :: "'m boost"
  by unfold_locales (fact writer_inv_start writer_inv_step)+

text \<open>
  C22. Writers are safe however they are used. Handlers may copy their writer, send through it any
  number of times, keep it, drop it, and do all this on any thread while the server
  accepts, reads and writes or after it was stopped: in every state reached, every writer refers to a live session, so
  \<open>send\<close>, the copy and the destructor are defined; a session's count of writers is the number
  of writers that refer to it; a session is alive exactly as long as it has an outstanding
  operation, a writer or a running handler; and the statistics stay exact: the
  session count, and the requests handled, in handling and read.
\<close>

theorem writers_safe:
  assumes "reach writer_start (writer_step B) ws"
    and "c = ws_conc ws" and "srv = cs_server c" and "st = getHttpStatistics srv"
  shows "(\<forall>w a. ws_writers ws w = Some a \<longrightarrow> a \<in> dom (srv_sessions srv)
           \<and> HttpResponseWriter_send B rsp w ws \<noteq> None \<and> copy_HttpResponseWriter w ws \<noteq> None
           \<and> delete_HttpResponseWriter w ws \<noteq> None)
    \<and> (\<forall>a s. srv_sessions srv a = Some s \<longrightarrow> ses_writers s = card {w. ws_writers ws w = Some a}
           \<and> (ses_pending s \<noteq> [] \<or> ses_writers s \<noteq> 0 \<or> a \<in> cs_handling c))
    \<and> cs_handling c \<subseteq> dom (srv_sessions srv)
    \<and> hs_session_cnt st = of_nat (card (dom (srv_sessions srv)))
    \<and> hs_working_handler_cnt st = of_nat (card (cs_handling c))
    \<and> hs_handler_request_cnt st + hs_working_handler_cnt st = hs_read_success_cnt st"
proof -
  have inv: "writer_inv ws" using assms(1) by (rule writers.reach_inv)
  then have own: "owned (srv_sessions srv) (cs_handling c) (ws_writers ws)"
    by (simp add: writer_inv_def assms(2,3))
  have "a \<in> dom (srv_sessions srv)
      \<and> HttpResponseWriter_send B rsp w ws \<noteq> None \<and> copy_HttpResponseWriter w ws \<noteq> None
      \<and> delete_HttpResponseWriter w ws \<noteq> None" if w: "ws_writers ws w = Some a" for w a
  proof -
    obtain s where "srv_sessions srv a = Some s" using own w by (auto simp: owned_def ran_def)
    with w have "writer_session w ws = Some (a, s)" by (simp add: writer_session_def assms(2,3))
    with \<open>srv_sessions srv a = Some s\<close> show ?thesis
      by (auto simp: HttpResponseWriter_send_def copy_HttpResponseWriter_def delete_HttpResponseWriter_def)
  qed
  moreover have "ses_writers s = card {w. ws_writers ws w = Some a}
      \<and> (ses_pending s \<noteq> [] \<or> ses_writers s \<noteq> 0 \<or> a \<in> cs_handling c)" if "srv_sessions srv a = Some s" for a s
    using own that unfolding owned_def has_owner_def by blast
  moreover have "cs_handling c \<subseteq> dom (srv_sessions srv)
    \<and> hs_session_cnt st = of_nat (card (dom (srv_sessions srv)))
    \<and> hs_working_handler_cnt st = of_nat (card (cs_handling c))
    \<and> hs_handler_request_cnt st + hs_working_handler_cnt st = hs_read_success_cnt st"
    using inv by (simp add: writer_inv_def conc_inv_def sessions_ok_def requests_ok_def assms(2-4)
        getHttpStatistics_def Let_def)
  ultimately show ?thesis by blast
qed

theorem writers_safe_witness:
  "\<exists>ws ws' :: (ref_message, nat) writer_server. reach writer_start (writer_step ref_boost) ws
     \<and> ws_writers ws = [0 \<mapsto> 0] \<and> copy_HttpResponseWriter 0 ws = Some ws'
     \<and> hs_working_handler_cnt (getHttpStatistics (ws_server ws)) = 1"
proof -
  obtain c0 c1 c2 :: "(ref_message, nat) concurrent_server" where
    c: "concurrent_start c0" "strand_step ref_boost None c0 c1" "strand_step ref_boost (Some 0) c1 c2"
    "cs_handling c2 = {0}" using demo_handling by blast
  let ?w0 = "\<lparr>ws_conc = c0, ws_writers = Map.empty, ws_next = 0\<rparr>"
  let ?w2 = "new_HttpResponseWriter 0 (?w0\<lparr>ws_conc := c2\<rparr>)"
  have "reach writer_start (writer_step ref_boost) ?w0"
    using c(1) by (intro reach_start) (simp add: writer_start_def)
  moreover have "writer_step ref_boost ?w0 (?w0\<lparr>ws_conc := c1\<rparr>)"
    using writer_strand [of ref_boost ?w0 c1] c(2) by simp
  ultimately have "reach writer_start (writer_step ref_boost) (?w0\<lparr>ws_conc := c1\<rparr>)" by (rule reach_step)
  moreover have "writer_step ref_boost (?w0\<lparr>ws_conc := c1\<rparr>) ?w2"
    using writer_made [of ref_boost 0 "?w0\<lparr>ws_conc := c1\<rparr>" c2] c(3) by simp
  ultimately have r: "reach writer_start (writer_step ref_boost) ?w2" by (rule reach_step)
  have w: "ws_writers ?w2 = [0 \<mapsto> 0]" by (simp add: new_HttpResponseWriter_def)
  from writers_safe [OF r refl refl refl] w have "copy_HttpResponseWriter 0 ?w2 \<noteq> None"
    and "hs_working_handler_cnt (getHttpStatistics (ws_server ?w2)) = 1"
    using c(4) by (simp_all add: new_HttpResponseWriter_def)
  with r w show ?thesis by blast
qed

end
