(* ===== verification/Http_Snapshot.thy ===== *)
theory Http_Snapshot
  imports Http_Server_Props
begin

section \<open>Counters under concurrency, and the statistics handed out\<close>

text \<open>
  The counters are atomic one by one, but a method that counts several things, and
  \<open>getHttpStatistics\<close>, which loads nine of them, are not. Here every increment, decrement and
  load is a step of its own: a thread that serves a session is the list of counter
  operations it still has to do, and the caller of \<open>getHttpStatistics\<close> the list of loads. Which
  operations a method does, in which order, is read off the methods of \<open>Http_Session\<close>.
\<close>

subsection \<open>Operations\<close>

datatype counter = Session_Cnt | Read_Timeout_Cnt | Read_Success_Cnt | Read_Fail_Cnt
  | Write_Timeout_Cnt | Write_Success_Cnt | Write_Fail_Cnt | Handle_Request_Cnt | Working_Handler_Cnt

datatype counter_op = Inc counter | Dec counter

fun apply_op :: "counter_op \<Rightarrow> http_statistics_internal \<Rightarrow> http_statistics_internal" where
  "apply_op (Inc Session_Cnt) t = t\<lparr>session_cnt := session_cnt t + 1\<rparr>"
| "apply_op (Inc Read_Timeout_Cnt) t = t\<lparr>read_timeout_cnt := read_timeout_cnt t + 1\<rparr>"
| "apply_op (Inc Read_Success_Cnt) t = t\<lparr>read_success_cnt := read_success_cnt t + 1\<rparr>"
| "apply_op (Inc Read_Fail_Cnt) t = t\<lparr>read_fail_cnt := read_fail_cnt t + 1\<rparr>"
| "apply_op (Inc Write_Timeout_Cnt) t = t\<lparr>write_timeout_cnt := write_timeout_cnt t + 1\<rparr>"
| "apply_op (Inc Write_Success_Cnt) t = t\<lparr>write_success_cnt := write_success_cnt t + 1\<rparr>"
| "apply_op (Inc Write_Fail_Cnt) t = t\<lparr>write_fail_cnt := write_fail_cnt t + 1\<rparr>"
| "apply_op (Inc Handle_Request_Cnt) t = t\<lparr>handle_request_cnt := handle_request_cnt t + 1\<rparr>"
| "apply_op (Inc Working_Handler_Cnt) t = t\<lparr>working_handler_cnt := working_handler_cnt t + 1\<rparr>"
| "apply_op (Dec Session_Cnt) t = t\<lparr>session_cnt := session_cnt t - 1\<rparr>"
| "apply_op (Dec Read_Timeout_Cnt) t = t\<lparr>read_timeout_cnt := read_timeout_cnt t - 1\<rparr>"
| "apply_op (Dec Read_Success_Cnt) t = t\<lparr>read_success_cnt := read_success_cnt t - 1\<rparr>"
| "apply_op (Dec Read_Fail_Cnt) t = t\<lparr>read_fail_cnt := read_fail_cnt t - 1\<rparr>"
| "apply_op (Dec Write_Timeout_Cnt) t = t\<lparr>write_timeout_cnt := write_timeout_cnt t - 1\<rparr>"
| "apply_op (Dec Write_Success_Cnt) t = t\<lparr>write_success_cnt := write_success_cnt t - 1\<rparr>"
| "apply_op (Dec Write_Fail_Cnt) t = t\<lparr>write_fail_cnt := write_fail_cnt t - 1\<rparr>"
| "apply_op (Dec Handle_Request_Cnt) t = t\<lparr>handle_request_cnt := handle_request_cnt t - 1\<rparr>"
| "apply_op (Dec Working_Handler_Cnt) t = t\<lparr>working_handler_cnt := working_handler_cnt t - 1\<rparr>"

text \<open>The operations of the methods, in the order the code does them.\<close>

definition refuse_ops :: "counter_op list" where
  "refuse_ops = [Inc Handle_Request_Cnt]"

definition dispatch_ops :: "counter_op list" where
  "dispatch_ops = [Inc Working_Handler_Cnt, Dec Working_Handler_Cnt, Inc Handle_Request_Cnt]"

definition processRequest_ops :: "'m boost \<Rightarrow> 'h http_router \<Rightarrow> beast_request \<Rightarrow> counter_op list" where
  "processRequest_ops B router req =
     (case parse_target B req of
        Inl e \<Rightarrow> refuse_ops
      | Inr url \<Rightarrow>
          (case search_segments (url_segments url) router of
             Some (Some h) \<Rightarrow> if rq_method req > verb_put B then refuse_ops else dispatch_ops
           | _ \<Rightarrow> refuse_ops))"

definition onRead_ops :: "'m boost \<Rightarrow> 'h http_router \<Rightarrow> error_code \<Rightarrow> beast_request \<Rightarrow> counter_op list" where
  "onRead_ops B router ec req =
     (if ec = End_Of_Stream then []
      else if ec = Timeout then [Inc Read_Timeout_Cnt]
      else if ec \<noteq> Success then [Inc Read_Fail_Cnt]
      else Inc Read_Success_Cnt # processRequest_ops B router req)"

definition onWrite_ops :: "error_code \<Rightarrow> counter_op list" where
  "onWrite_ops ec =
     (if ec = Timeout then [Inc Write_Timeout_Cnt]
      else if ec \<noteq> Success then [Inc Write_Fail_Cnt]
      else [Inc Write_Success_Cnt])"

text \<open>Done without interruption they are the effect of the methods on the statistics.\<close>

lemma onWrite_effect_ops: "sw_stats (onWrite B opts ka ec w) = fold apply_op (onWrite_ops ec) (sw_stats w)"
  by (simp add: onWrite_def onWrite_ops_def doRead_def)

lemma processRequest_effect_ops:
  assumes "processRequest B opts router handle now w = Some w'"
  shows "sw_stats w' = fold apply_op (processRequest_ops B router (ses_request (sw_session w))) (sw_stats w)"
  using assms
  by (auto simp: processRequest_def processRequest_ops_def refuse_ops_def dispatch_ops_def dispatch_request_def
      session_simps Let_def split: sum.splits option.splits if_splits)

lemma onRead_effect_ops:
  assumes "onRead B opts router handle now ec w = Some w'"
  shows "sw_stats w' = fold apply_op (onRead_ops B router ec (ses_request (sw_session w))) (sw_stats w)"
  using assms
  by (auto simp: onRead_def onRead_ops_def dest!: processRequest_effect_ops split: if_splits)

lemma session_effect_ops:
  "sw_stats (new_HttpSession B opts i t) = fold apply_op [Inc Session_Cnt] t"
  "sw_stats (delete_HttpSession w) = fold apply_op [Dec Session_Cnt] (sw_stats w)"
  by (simp_all add: new_HttpSession_def delete_HttpSession_def)

text \<open>The loads of \<open>getHttpStatistics\<close>, in its order.\<close>

fun load_counter :: "counter \<Rightarrow> http_statistics_internal \<Rightarrow> http_statistics \<Rightarrow> http_statistics" where
  "load_counter Session_Cnt t st = st\<lparr>hs_session_cnt := session_cnt t\<rparr>"
| "load_counter Read_Timeout_Cnt t st = st\<lparr>hs_read_timeout_cnt := read_timeout_cnt t\<rparr>"
| "load_counter Read_Success_Cnt t st = st\<lparr>hs_read_success_cnt := read_success_cnt t\<rparr>"
| "load_counter Read_Fail_Cnt t st = st\<lparr>hs_read_fail_cnt := read_fail_cnt t\<rparr>"
| "load_counter Write_Timeout_Cnt t st = st\<lparr>hs_write_timeout_cnt := write_timeout_cnt t\<rparr>"
| "load_counter Write_Success_Cnt t st = st\<lparr>hs_write_success_cnt := write_success_cnt t\<rparr>"
| "load_counter Write_Fail_Cnt t st = st\<lparr>hs_write_fail_cnt := write_fail_cnt t\<rparr>"
| "load_counter Handle_Request_Cnt t st = st\<lparr>hs_handler_request_cnt := handle_request_cnt t\<rparr>"
| "load_counter Working_Handler_Cnt t st = st\<lparr>hs_working_handler_cnt := working_handler_cnt t\<rparr>"

definition statistics_loads :: "counter list" where
  "statistics_loads =
     [Handle_Request_Cnt, Working_Handler_Cnt, Read_Timeout_Cnt, Read_Success_Cnt, Read_Fail_Cnt,
      Write_Timeout_Cnt, Write_Success_Cnt, Write_Fail_Cnt, Session_Cnt]"

definition new_HttpStatistics :: http_statistics where
  "new_HttpStatistics =
     \<lparr>hs_session_cnt = 0, hs_read_timeout_cnt = 0, hs_read_success_cnt = 0, hs_read_fail_cnt = 0,
      hs_write_timeout_cnt = 0, hs_write_success_cnt = 0, hs_write_fail_cnt = 0,
      hs_handler_request_cnt = 0, hs_working_handler_cnt = 0\<rparr>"

lemma loads_uninterrupted:
  "fold (\<lambda>c. load_counter c (srv_statistics srv)) statistics_loads new_HttpStatistics = getHttpStatistics srv"
  by (simp add: statistics_loads_def new_HttpStatistics_def getHttpStatistics_def Let_def)

subsection \<open>Interleaving\<close>

text \<open>
  Threads begin the operations of a method and do them one after the other. Two auxiliary
  counts, which the program does not have, are kept beside: the requests read and handled so
  far.
\<close>

record counter_world =
  cw_stats :: http_statistics_internal
  cw_threads :: "counter_op list list"
  cw_loads :: "counter list"
  cw_snapshot :: http_statistics
  cw_reads :: nat
  cw_handled :: nat

definition method_ops :: "'m boost \<Rightarrow> 'h http_router \<Rightarrow> counter_op list \<Rightarrow> bool" where
  "method_ops B router ops \<longleftrightarrow> ops = [Inc Session_Cnt] \<or> ops = [Dec Session_Cnt]
     \<or> (\<exists>ec req. ops = onRead_ops B router ec req) \<or> (\<exists>ec. ops = onWrite_ops ec)"

inductive counter_step :: "'m boost \<Rightarrow> 'h http_router \<Rightarrow> counter_world \<Rightarrow> counter_world \<Rightarrow> bool"
  for B :: "'m boost" and router :: "'h http_router" where
  thread_begin:
    "i < length (cw_threads cw) \<Longrightarrow> cw_threads cw ! i = [] \<Longrightarrow> method_ops B router ops \<Longrightarrow>
     counter_step B router cw (cw\<lparr>cw_threads := (cw_threads cw)[i := ops]\<rparr>)"
| thread_op:
    "i < length (cw_threads cw) \<Longrightarrow> cw_threads cw ! i = op # ops \<Longrightarrow>
     counter_step B router cw
       (cw\<lparr>cw_stats := apply_op op (cw_stats cw), cw_threads := (cw_threads cw)[i := ops],
           cw_reads := cw_reads cw + (if op = Inc Read_Success_Cnt then 1 else 0),
           cw_handled := cw_handled cw + (if op = Inc Handle_Request_Cnt then 1 else 0)\<rparr>)"
| snapshot_begin:
    "counter_step B router cw (cw\<lparr>cw_loads := statistics_loads, cw_snapshot := new_HttpStatistics\<rparr>)"
| snapshot_load:
    "cw_loads cw = c # cs \<Longrightarrow>
     counter_step B router cw
       (cw\<lparr>cw_loads := cs, cw_snapshot := load_counter c (cw_stats cw) (cw_snapshot cw)\<rparr>)"

definition counter_start :: "counter_world \<Rightarrow> bool" where
  "counter_start cw \<longleftrightarrow> (\<exists>n. cw = \<lparr>cw_stats = zero_statistics, cw_threads = replicate n [], cw_loads = [],
     cw_snapshot = new_HttpStatistics, cw_reads = 0, cw_handled = 0\<rparr>)"

subsection \<open>What the operations still to be done are worth\<close>

text \<open>
  \<open>work\<close>: is the thread counted as working; \<open>pend\<close>: has it read a request that is neither
  handled nor counted as working. Both are sums over the operations that remain.
\<close>

fun op_work :: "counter_op \<Rightarrow> int" where
  "op_work (Inc Working_Handler_Cnt) = -1"
| "op_work (Dec Working_Handler_Cnt) = 1"
| "op_work _ = 0"

fun op_pend :: "counter_op \<Rightarrow> int" where
  "op_pend (Inc Handle_Request_Cnt) = 1"
| "op_pend (Inc Read_Success_Cnt) = -1"
| "op_pend (Inc Working_Handler_Cnt) = 1"
| "op_pend (Dec Working_Handler_Cnt) = -1"
| "op_pend _ = 0"

definition work :: "counter_op list \<Rightarrow> int" where
  "work ops = sum_list (map op_work ops)"

definition pend :: "counter_op list \<Rightarrow> int" where
  "pend ops = sum_list (map op_pend ops)"

fun sound_ops :: "counter_op list \<Rightarrow> bool" where
  "sound_ops [] \<longleftrightarrow> True"
| "sound_ops (op # ops) \<longleftrightarrow> 0 \<le> work (op # ops) \<and> 0 \<le> pend (op # ops) \<and> sound_ops ops
     \<and> op \<noteq> Dec Read_Success_Cnt \<and> op \<noteq> Dec Handle_Request_Cnt"

lemma method_ops_sound:
  assumes "method_ops B router ops"
  shows "sound_ops ops \<and> work ops = 0 \<and> pend ops = 0"
proof -
  have "sound_ops ops \<and> work ops = 0 \<and> pend ops = 0" if "ops = onRead_ops B router ec req" for ec req
    using that
    by (auto simp: onRead_ops_def processRequest_ops_def refuse_ops_def dispatch_ops_def work_def pend_def
        split: sum.split option.split)
  with assms show ?thesis by (auto simp: method_ops_def onWrite_ops_def work_def pend_def)
qed

lemma sound_ops_nonneg: "sound_ops ops \<Longrightarrow> 0 \<le> work ops \<and> 0 \<le> pend ops"
  by (cases ops) (simp_all add: work_def pend_def)

lemma sum_map_update:
  fixes f :: "'a \<Rightarrow> int"
  assumes "i < length xs"
  shows "sum_list (map f (xs[i := x])) = sum_list (map f xs) - f (xs ! i) + f x"
  using assms by (induction xs arbitrary: i) (auto split: nat.split)

lemma sum_map_idle: "set xs \<subseteq> {x} \<Longrightarrow> f x = 0 \<Longrightarrow> sum_list (map f xs :: int list) = 0"
  by (induction xs) auto

lemma sum_map_nonneg: "(\<forall>x \<in> set xs. 0 \<le> f x) \<Longrightarrow> 0 \<le> sum_list (map f xs :: int list)"
  by (induction xs) auto

lemma apply_op_stats:
  assumes "op \<noteq> Dec Read_Success_Cnt" "op \<noteq> Dec Handle_Request_Cnt"
  shows "working_handler_cnt (apply_op op t) = working_handler_cnt t - of_int (op_work op)"
    and "handle_request_cnt (apply_op op t) = handle_request_cnt t + of_nat (if op = Inc Handle_Request_Cnt then 1 else 0)"
    and "read_success_cnt (apply_op op t) = read_success_cnt t + of_nat (if op = Inc Read_Success_Cnt then 1 else 0)"
  using assms by (induction op t rule: apply_op.induct) simp_all

lemma op_pend_eq:
  assumes "op \<noteq> Dec Read_Success_Cnt" "op \<noteq> Dec Handle_Request_Cnt"
  shows "op_pend op = int (if op = Inc Handle_Request_Cnt then 1 else 0)
       - int (if op = Inc Read_Success_Cnt then 1 else 0) - op_work op"
  using assms by (induction op rule: op_pend.induct) simp_all

subsection \<open>The invariant\<close>

definition working_threads :: "counter_world \<Rightarrow> int" where
  "working_threads cw = sum_list (map work (cw_threads cw))"

definition counter_inv :: "counter_world \<Rightarrow> bool" where
  "counter_inv cw \<longleftrightarrow> (\<forall>ops \<in> set (cw_threads cw). sound_ops ops)
     \<and> read_success_cnt (cw_stats cw) = of_nat (cw_reads cw)
     \<and> handle_request_cnt (cw_stats cw) = of_nat (cw_handled cw)
     \<and> working_handler_cnt (cw_stats cw) = of_int (working_threads cw)
     \<and> int (cw_reads cw) = int (cw_handled cw) + working_threads cw + sum_list (map pend (cw_threads cw))"

lemma counter_inv_start: "counter_start cw \<Longrightarrow> counter_inv cw"
  by (auto simp: counter_start_def counter_inv_def working_threads_def zero_statistics_def work_def pend_def
      map_replicate_const sum_list_replicate)

lemma counter_inv_step:
  assumes inv: "counter_inv cw" and step: "counter_step B router cw cw'"
  shows "counter_inv cw'"
  using step
proof cases
  case (thread_begin i ops)
  with inv method_ops_sound [OF thread_begin(4)] show ?thesis
    by (auto simp: counter_inv_def working_threads_def sum_map_update work_def pend_def dest: set_update_subset_insert [THEN subsetD])
next
  case (thread_op i op ops)
  have "op # ops \<in> set (cw_threads cw)" using thread_op by (metis nth_mem)
  with inv have sound: "sound_ops (op # ops)" by (auto simp: counter_inv_def)
  then have "op \<noteq> Dec Read_Success_Cnt" "op \<noteq> Dec Handle_Request_Cnt" by simp_all
  note eff = apply_op_stats [OF this, of "cw_stats cw"] op_pend_eq [OF this]
  have "\<forall>xs \<in> set ((cw_threads cw)[i := ops]). sound_ops xs"
    using inv sound by (auto simp: counter_inv_def dest: set_update_subset_insert [THEN subsetD])
  moreover have "working_threads cw' = working_threads cw - op_work op"
    using thread_op by (simp add: working_threads_def sum_map_update work_def)
  moreover have "sum_list (map pend (cw_threads cw')) = sum_list (map pend (cw_threads cw)) - op_pend op"
    using thread_op by (simp add: sum_map_update pend_def)
  ultimately show ?thesis
    using inv eff thread_op by (simp add: counter_inv_def)
qed (use inv in \<open>simp_all add: counter_inv_def working_threads_def\<close>)

lemma counter_inv_bounds:
  assumes "counter_inv cw"
  shows "0 \<le> working_threads cw \<and> int (cw_handled cw) + working_threads cw \<le> int (cw_reads cw)"
proof -
  have "0 \<le> sum_list (map work (cw_threads cw))" "0 \<le> sum_list (map pend (cw_threads cw))"
    using assms by (auto intro!: sum_map_nonneg simp: counter_inv_def sound_ops_nonneg)
  with assms show ?thesis by (auto simp: counter_inv_def working_threads_def)
qed

text \<open>What the loads done so far of the current call have got.\<close>

definition loaded :: "counter list \<Rightarrow> http_statistics \<Rightarrow> nat \<Rightarrow> nat \<Rightarrow> nat \<Rightarrow> nat \<Rightarrow> nat \<Rightarrow> bool" where
  "loaded loads st handled reads h w r \<longleftrightarrow>
     h \<le> handled \<and> h + w \<le> reads \<and> r \<le> reads
     \<and> (Handle_Request_Cnt \<in> set loads \<longrightarrow> h = 0) \<and> (Working_Handler_Cnt \<in> set loads \<longrightarrow> w = 0)
     \<and> (Read_Success_Cnt \<notin> set loads \<longrightarrow> h + w \<le> r)
     \<and> hs_handler_request_cnt st = of_nat h \<and> hs_working_handler_cnt st = of_nat w
     \<and> hs_read_success_cnt st = of_nat r"

definition snapshot_inv :: "counter_world \<Rightarrow> bool" where
  "snapshot_inv cw \<longleftrightarrow> suffix (cw_loads cw) statistics_loads
     \<and> (\<exists>h w r. loaded (cw_loads cw) (cw_snapshot cw) (cw_handled cw) (cw_reads cw) h w r)"

lemma loaded_begin: "loaded statistics_loads new_HttpStatistics handled reads 0 0 0"
  by (simp add: loaded_def new_HttpStatistics_def)

lemma loaded_grows:
  "loaded loads st handled reads h w r \<Longrightarrow> handled \<le> handled' \<Longrightarrow> reads \<le> reads' \<Longrightarrow>
     loaded loads st handled' reads' h w r"
  by (simp add: loaded_def)

lemma snapshot_inv_start: "counter_start cw \<Longrightarrow> snapshot_inv cw"
  by (auto simp: counter_start_def snapshot_inv_def new_HttpStatistics_def loaded_def)

lemma loads_order:
  assumes "suffix (c # cs) statistics_loads"
  shows "c \<notin> set cs \<and> suffix cs statistics_loads
    \<and> (c = Handle_Request_Cnt \<longrightarrow> Working_Handler_Cnt \<in> set cs \<and> Read_Success_Cnt \<in> set cs)
    \<and> (c = Working_Handler_Cnt \<longrightarrow> Read_Success_Cnt \<in> set cs) \<and> Handle_Request_Cnt \<notin> set cs"
proof -
  have "c # cs \<in> set (suffixes statistics_loads)" using assms by simp
  then have "c \<notin> set cs \<and> (c = Handle_Request_Cnt \<longrightarrow> Working_Handler_Cnt \<in> set cs \<and> Read_Success_Cnt \<in> set cs)
    \<and> (c = Working_Handler_Cnt \<longrightarrow> Read_Success_Cnt \<in> set cs) \<and> Handle_Request_Cnt \<notin> set cs"
    by (auto simp: statistics_loads_def simp del: in_set_suffixes)
  moreover have "suffix cs statistics_loads" using assms by (rule suffix_ConsD)
  ultimately show ?thesis by simp
qed

lemma loaded_load:
  assumes l: "loaded (c # cs) st handled reads h w r" and order: "suffix (c # cs) statistics_loads"
    and vals: "read_success_cnt t = of_nat reads" "handle_request_cnt t = of_nat handled"
      "working_handler_cnt t = of_nat v" and v: "handled + v \<le> reads"
  shows "loaded cs (load_counter c t st) handled reads (if c = Handle_Request_Cnt then handled else h)
    (if c = Working_Handler_Cnt then v else w) (if c = Read_Success_Cnt then reads else r)"
proof -
  have "h + v \<le> reads" using l v by (simp add: loaded_def)
  then show ?thesis using l vals v loads_order [OF order] by (cases c) (simp_all add: loaded_def)
qed

lemma snapshot_inv_grows:
  assumes "snapshot_inv cw" "cw_loads cw' = cw_loads cw" "cw_snapshot cw' = cw_snapshot cw"
    and "cw_handled cw \<le> cw_handled cw'" "cw_reads cw \<le> cw_reads cw'"
  shows "snapshot_inv cw'"
  using assms loaded_grows unfolding snapshot_inv_def by metis

lemma snapshot_inv_step:
  assumes snap: "snapshot_inv cw" and inv: "counter_inv cw" and step: "counter_step B router cw cw'"
  shows "snapshot_inv cw'"
proof -
  obtain h w r where l: "loaded (cw_loads cw) (cw_snapshot cw) (cw_handled cw) (cw_reads cw) h w r"
    and suf: "suffix (cw_loads cw) statistics_loads"
    using snap by (auto simp: snapshot_inv_def)
  from step show ?thesis
  proof cases
    case snapshot_begin
    then show ?thesis by (auto simp: snapshot_inv_def intro!: exI loaded_begin)
  next
    case (snapshot_load c cs)
    obtain v where "working_threads cw = int v" using counter_inv_bounds [OF inv] nonneg_int_cases by blast
    then have "handle_request_cnt (cw_stats cw) = of_nat (cw_handled cw)"
      "read_success_cnt (cw_stats cw) = of_nat (cw_reads cw)"
      "working_handler_cnt (cw_stats cw) = of_nat v" "cw_handled cw + v \<le> cw_reads cw"
      using inv counter_inv_bounds [OF inv] by (auto simp: counter_inv_def)
    from loaded_load [OF l [unfolded snapshot_load(2)] suf [unfolded snapshot_load(2)] this(2,1,3,4)]
      loads_order [OF suf [unfolded snapshot_load(2)]] snapshot_load
    show ?thesis by (auto simp: snapshot_inv_def)
  qed (use snapshot_inv_grows [OF snap, of cw'] in auto)
qed

interpretation counting: invariant_system counter_start "counter_step B router"
    "\<lambda>cw. counter_inv cw \<and> snapshot_inv cw"
  for B :: "'m boost" and router :: "'h http_router"
  by unfold_locales (blast intro: counter_inv_start snapshot_inv_start counter_inv_step snapshot_inv_step)+

text \<open>
  C23. \<open>getHttpStatistics\<close> is consistent although it loads the counters one by one while any number
  of threads count: whatever happens between its loads, it never reports more requests
  handled and in handling than read, because it loads the read count after the two others
  and the code counts a request as read before it counts it as working or handled. The
  counters themselves satisfy this at every moment, between any two operations; when no
  thread is counting, no handler is counted as working and exactly the requests read are counted
  as handled. (All for fewer than 2 to the 64 requests, after which the counters wrap.)
\<close>

theorem snapshot_never_overcounts:
  assumes "reach counter_start (counter_step B router) cw" and "cw_reads cw < 2 ^ 64"
    and "st = cw_snapshot cw" and "t = cw_stats cw"
  shows "(cw_loads cw = [] \<longrightarrow>
      unat (hs_handler_request_cnt st) + unat (hs_working_handler_cnt st) \<le> unat (hs_read_success_cnt st))
    \<and> unat (handle_request_cnt t) + unat (working_handler_cnt t) \<le> unat (read_success_cnt t)
    \<and> (set (cw_threads cw) \<subseteq> {[]} \<longrightarrow> working_handler_cnt t = 0
        \<and> handle_request_cnt t = read_success_cnt t)"
proof -
  have inv: "counter_inv cw" and snap: "snapshot_inv cw" using counting.reach_inv [OF assms(1)] by auto
  obtain h w r where "loaded (cw_loads cw) st (cw_handled cw) (cw_reads cw) h w r"
    using snap assms(3) by (auto simp: snapshot_inv_def)
  then have "cw_loads cw = [] \<longrightarrow>
      unat (hs_handler_request_cnt st) + unat (hs_working_handler_cnt st) \<le> unat (hs_read_success_cnt st)"
    using assms(2) by (simp add: loaded_def unat_of_nat_u64)
  moreover obtain v where v: "working_threads cw = int v"
    using counter_inv_bounds [OF inv] nonneg_int_cases by blast
  moreover from this have vals: "unat (handle_request_cnt t) = cw_handled cw"
    "unat (read_success_cnt t) = cw_reads cw" "unat (working_handler_cnt t) = v"
    using inv counter_inv_bounds [OF inv] assms(2,4) by (auto simp: counter_inv_def unat_of_nat_u64)
  moreover have "v = 0 \<and> cw_handled cw = cw_reads cw" if idle: "set (cw_threads cw) \<subseteq> {[]}"
  proof -
    have "sum_list (map work (cw_threads cw)) = 0" "sum_list (map pend (cw_threads cw)) = 0"
      using idle by (simp_all add: sum_map_idle work_def pend_def)
    with inv v show ?thesis by (auto simp: counter_inv_def working_threads_def)
  qed
  ultimately show ?thesis using counter_inv_bounds [OF inv] by (auto simp: word_unat_eq_iff)
qed

text \<open>A call of \<open>getHttpStatistics\<close> can go through undisturbed.\<close>

lemma loads_reach:
  assumes "reach counter_start (counter_step B router) cw"
  shows "\<exists>cw'. reach counter_start (counter_step B router) cw' \<and> cw_loads cw' = []
    \<and> cw_stats cw' = cw_stats cw \<and> cw_reads cw' = cw_reads cw
    \<and> cw_snapshot cw' = fold (\<lambda>c. load_counter c (cw_stats cw)) (cw_loads cw) (cw_snapshot cw)"
  using assms
proof (induction "cw_loads cw" arbitrary: cw)
  case (Cons c cs)
  let ?cw = "cw\<lparr>cw_loads := cs, cw_snapshot := load_counter c (cw_stats cw) (cw_snapshot cw)\<rparr>"
  have loads: "cw_loads cw = c # cs" using Cons.hyps(2) by simp
  have "reach counter_start (counter_step B router) ?cw"
    by (rule reach_step [OF Cons.prems snapshot_load [OF loads]])
  then have "\<exists>cw'. reach counter_start (counter_step B router) cw' \<and> cw_loads cw' = []
    \<and> cw_stats cw' = cw_stats ?cw \<and> cw_reads cw' = cw_reads ?cw
    \<and> cw_snapshot cw' = fold (\<lambda>c. load_counter c (cw_stats ?cw)) (cw_loads ?cw) (cw_snapshot ?cw)"
    by (intro Cons.hyps(1)) simp_all
  then show ?case by (simp add: loads)
qed auto

theorem snapshot_never_overcounts_witness:
  "\<exists>cw. reach counter_start (counter_step ref_boost (new_HttpRouter :: nat http_router)) cw \<and> cw_loads cw = []
     \<and> hs_read_success_cnt (cw_snapshot cw) = 1
     \<and> unat (hs_handler_request_cnt (cw_snapshot cw)) + unat (hs_working_handler_cnt (cw_snapshot cw)) \<le> 1"
proof -
  let ?step = "counter_step ref_boost (new_HttpRouter :: nat http_router)"
  let ?ops = "onRead_ops ref_boost (new_HttpRouter :: nat http_router) Success demo_request"
  let ?c0 = "\<lparr>cw_stats = zero_statistics, cw_threads = [[]], cw_loads = [],
     cw_snapshot = new_HttpStatistics, cw_reads = 0, cw_handled = 0\<rparr>"
  let ?c1 = "?c0\<lparr>cw_threads := [?ops]\<rparr>"
  let ?c2 = "?c1\<lparr>cw_stats := apply_op (Inc Read_Success_Cnt) zero_statistics, cw_threads := [tl ?ops], cw_reads := 1\<rparr>"
  have ops: "?ops = Inc Read_Success_Cnt # tl ?ops" by (simp add: onRead_ops_def)
  have "reach counter_start ?step ?c0" by (rule reach_start) (auto simp: counter_start_def intro!: exI [of _ 1])
  moreover have "?step ?c0 ?c1"
    using thread_begin [of 0 ?c0 ref_boost "new_HttpRouter :: nat http_router" ?ops] by (auto simp: method_ops_def)
  ultimately have "reach counter_start ?step ?c1" by (rule reach_step)
  moreover have "?step ?c1 ?c2"
    using thread_op [of 0 ?c1 "Inc Read_Success_Cnt" "tl ?ops" ref_boost "new_HttpRouter :: nat http_router"] ops by simp
  ultimately have "reach counter_start ?step ?c2" by (rule reach_step)
  moreover have "?step ?c2 (?c2\<lparr>cw_loads := statistics_loads, cw_snapshot := new_HttpStatistics\<rparr>)"
    by (rule snapshot_begin)
  ultimately have "reach counter_start ?step (?c2\<lparr>cw_loads := statistics_loads, cw_snapshot := new_HttpStatistics\<rparr>)"
    by (rule reach_step)
  from loads_reach [OF this] obtain cw where
    r: "reach counter_start ?step cw" "cw_loads cw = []" "cw_reads cw = 1"
    and one: "hs_read_success_cnt (cw_snapshot cw) = 1"
    by (auto simp: statistics_loads_def new_HttpStatistics_def zero_statistics_def)
  from snapshot_never_overcounts [OF r(1) _ refl refl] r one show ?thesis by auto
qed

end
