(* ===== verification/Http_Threads.thy ===== *)
theory Http_Threads
  imports Http_Server_Props
begin

section \<open>The thread pool: running and stopping from any thread\<close>

text \<open>
  \<open>Http_Server_Impl\<close> counts the threads of \<open>io_thread_pool_\<close>; here they are objects. A thread
  number stands for \<open>std::thread::id\<close>; the thread that called \<open>run\<close> is not in the pool. \<open>stop\<close>
  may be called by any thread, also by a handler, which runs on one of the threads that run
  the \<open>io_context\<close>. \<open>join\<close> returns when the thread has left \<open>io_context::run\<close>; \<open>stuck\<close> says which
  threads never do, because a handler on them does not return: joining one never returns,
  and neither does \<open>stop\<close> (\<open>None\<close>). Joining oneself throws.
\<close>

subsection \<open>Threads\<close>

record pool_thread =
  th_id :: nat
  th_joinable :: bool

datatype thread_error = Resource_Deadlock_Would_Occur

record ('m, 'h) threaded_server =
  ts_server :: "('m, 'h) http_server_impl"
  ts_pool :: "pool_thread list"
  ts_next :: nat

text \<open>\<open>emplace_back([this] { this->io_context_.run(); })\<close> in the loop of \<open>run\<close>.\<close>

function emplace_threads :: "u32 \<Rightarrow> u32 \<Rightarrow> pool_thread list \<Rightarrow> nat \<Rightarrow> pool_thread list \<times> nat" where
  "emplace_threads i n pool fresh =
     (if i < n then emplace_threads (i + 1) n (pool @ [\<lparr>th_id = fresh, th_joinable = True\<rparr>]) (fresh + 1)
      else (pool, fresh))"
  by pat_completeness auto
termination
  by (relation "measure (\<lambda>(i, n, _). unat n - unat i)")
    (auto simp: unat_inc_less word_less_nat_alt)

declare emplace_threads.simps [simp del]

definition threads_run ::
    "net_results \<Rightarrow> ('m, 'h) threaded_server \<Rightarrow> server_error option \<times> ('m, 'h) threaded_server" where
  "threads_run net ts =
     (case server_run net (ts_server ts) of
        (Some e, srv) \<Rightarrow> (Some e, ts\<lparr>ts_server := srv\<rparr>)
      | (None, srv) \<Rightarrow>
          (case emplace_threads 0 (opt_thread_num (srv_opts srv) - 1) (ts_pool ts) (ts_next ts) of
             (pool, fresh) \<Rightarrow> (None, ts\<lparr>ts_server := srv, ts_pool := pool, ts_next := fresh\<rparr>)))"

text \<open>The loop of \<open>stop\<close>; on an exception, with the pool as it is then.\<close>

fun join_loop ::
    "nat \<Rightarrow> (nat \<Rightarrow> bool) \<Rightarrow> pool_thread list \<Rightarrow> (thread_error \<times> pool_thread list + pool_thread list) option" where
  "join_loop self stuck [] = Some (Inr [])"
| "join_loop self stuck (th # pool) =
     (if th_joinable th
      then if th_id th = self then Some (Inl (Resource_Deadlock_Would_Occur, th # pool))
           else if stuck (th_id th) then None
           else map_option (map_sum (map_prod id ((#) (th\<lparr>th_joinable := False\<rparr>)))
                  ((#) (th\<lparr>th_joinable := False\<rparr>))) (join_loop self stuck pool)
      else map_option (map_sum (map_prod id ((#) th)) ((#) th)) (join_loop self stuck pool))"

definition close_acceptor :: "('m, 'h) threaded_server \<Rightarrow> ('m, 'h) threaded_server" where
  "close_acceptor ts =
     (if srv_acceptor_open (ts_server ts)
      then ts\<lparr>ts_server := (ts_server ts)\<lparr>srv_acceptor_open := False\<rparr>\<rparr> else ts)"

definition threads_stop ::
    "nat \<Rightarrow> (nat \<Rightarrow> bool) \<Rightarrow> ('m, 'h) threaded_server
       \<Rightarrow> (thread_error option \<times> ('m, 'h) threaded_server) option" where
  "threads_stop self stuck ts =
     (if \<not> srv_io_stopped (ts_server ts)
      then let ts = ts\<lparr>ts_server := (ts_server ts)\<lparr>srv_io_stopped := True\<rparr>\<rparr>
           in case join_loop self stuck (ts_pool ts) of
                None \<Rightarrow> None
              | Some (Inl (e, pool)) \<Rightarrow> Some (Some e, ts\<lparr>ts_pool := pool\<rparr>)
              | Some (Inr pool) \<Rightarrow>
                  Some (None, close_acceptor
                    (ts\<lparr>ts_pool := [], ts_server := (ts_server ts)\<lparr>srv_threads := 0\<rparr>\<rparr>))
      else Some (None, close_acceptor ts))"

text \<open>
  Destroying \<open>io_thread_pool_\<close>: the destructor of a joinable \<open>std::thread\<close> calls
  \<open>std::terminate\<close>.
\<close>

definition destruction_terminates :: "('m, 'h) threaded_server \<Rightarrow> bool" where
  "destruction_terminates ts = list_ex th_joinable (ts_pool ts)"

text \<open>
  An exception that leaves \<open>io_context::run\<close> ends the program on a thread of the pool, which has no
  handler for it. (One that leaves a handler ends it before that, since \<open>handle\<close> is \<open>noexcept\<close>.)
\<close>

definition exception_terminates :: "nat \<Rightarrow> ('m, 'h) threaded_server \<Rightarrow> bool" where
  "exception_terminates self ts = list_ex (\<lambda>th. th_id th = self) (ts_pool ts)"

subsection \<open>Lemmas\<close>

lemma emplace_threads_eq:
  "emplace_threads i n pool fresh =
     (pool @ map (\<lambda>t. \<lparr>th_id = t, th_joinable = True\<rparr>) [fresh ..< fresh + (unat n - unat i)],
      fresh + (unat n - unat i))"
proof (induction i n pool fresh rule: emplace_threads.induct)
  case (1 i n pool fresh)
  show ?case
  proof (cases "i < n")
    case True
    then have "unat n - unat i = Suc (unat n - unat (i + 1))"
      by (simp add: unat_inc_less word_less_nat_alt)
    with True 1 show ?thesis
      by (subst emplace_threads.simps) (simp add: upt_conv_Cons)
  next
    case False
    then show ?thesis
      by (subst emplace_threads.simps) (simp add: word_less_nat_alt)
  qed
qed

definition joined :: "pool_thread list \<Rightarrow> pool_thread list" where
  "joined = map (\<lambda>th. th\<lparr>th_joinable := False\<rparr>)"

lemma join_loop_prefix:
  assumes "\<forall>th \<in> set pool. th_joinable th \<longrightarrow> th_id th \<noteq> self \<and> \<not> stuck (th_id th)"
  shows "join_loop self stuck (pool @ rest) =
    map_option (map_sum (map_prod id ((@) (joined pool))) ((@) (joined pool))) (join_loop self stuck rest)"
  using assms
proof (induction pool)
  case Nil
  then show ?case by (simp add: joined_def option.map_ident sum.map_ident prod.map_ident)
next
  case (Cons th pool)
  then have IH: "join_loop self stuck (pool @ rest) =
      map_option (map_sum (map_prod id ((@) (joined pool))) ((@) (joined pool))) (join_loop self stuck rest)"
    by (simp add: id_def)
  show ?case
  proof (cases "th_joinable th")
    case True
    with Cons.prems IH show ?thesis
      by (simp add: joined_def option.map_comp sum.map_comp prod.map_comp comp_def)
  next
    case False
    then have "joined (th # pool) = th # joined pool" by (cases th) (simp add: joined_def)
    with False IH show ?thesis
      by (simp add: option.map_comp sum.map_comp prod.map_comp comp_def)
  qed
qed

lemma join_loop_all:
  "\<forall>th \<in> set pool. th_joinable th \<longrightarrow> th_id th \<noteq> self \<and> \<not> stuck (th_id th) \<Longrightarrow>
     join_loop self stuck pool = Some (Inr (joined pool))"
  using join_loop_prefix [of pool self stuck "[]"] by simp

lemma join_loop_self:
  assumes "\<forall>th \<in> set pool. th_joinable th \<longrightarrow> th_id th \<noteq> self \<and> \<not> stuck (th_id th)"
    and "th_joinable th" "th_id th = self"
  shows "join_loop self stuck (pool @ th # rest) = Some (Inl (Resource_Deadlock_Would_Occur, joined pool @ th # rest))"
  using assms by (simp add: join_loop_prefix)

lemma join_loop_stuck:
  assumes "\<forall>th \<in> set pool. th_joinable th \<longrightarrow> th_id th \<noteq> self \<and> \<not> stuck (th_id th)"
    and "th_joinable th" "th_id th \<noteq> self" "stuck (th_id th)"
  shows "join_loop self stuck (pool @ th # rest) = None"
  using assms by (simp add: join_loop_prefix)

lemma upt_split: "i \<le> j \<Longrightarrow> j < k \<Longrightarrow> [i ..< k] = [i ..< j] @ j # [j + 1 ..< k]"
  using upt_add_eq_append [of i j "k - j"] by (simp add: upt_conv_Cons)

lemma threads_run_pool:
  assumes "threads_run net ts0 = (None, ts)"
  shows "ts_server ts = running_state (ts_server ts0)
    \<and> ts_pool ts = ts_pool ts0 @ map (\<lambda>t. \<lparr>th_id = t, th_joinable = True\<rparr>) [ts_next ts0 ..< ts_next ts]
    \<and> ts_next ts0 \<le> ts_next ts
    \<and> ts_next ts + 1 = ts_next ts0 + unat (opt_thread_num (srv_opts (ts_server ts0)))"
proof -
  have run: "server_run net (ts_server ts0) = (None, running_state (ts_server ts0))"
    using assms by (auto simp: threads_run_def server_run_None_iff split: prod.splits option.splits)
  then have n: "opt_thread_num (srv_opts (ts_server ts0)) \<noteq> 0" by (simp add: server_run_None_iff)
  then have "unat (opt_thread_num (srv_opts (ts_server ts0)) - 1) + 1 = unat (opt_thread_num (srv_opts (ts_server ts0)))"
    by (simp add: unat_minus_one unat_gt_0)
  with assms run show ?thesis
    by (auto simp: threads_run_def emplace_threads_eq running_state_def)
qed

lemma threads_stop_all:
  assumes "\<not> srv_io_stopped (ts_server ts)"
    and "\<forall>th \<in> set (ts_pool ts). th_joinable th \<longrightarrow> th_id th \<noteq> self \<and> \<not> stuck (th_id th)"
  shows "\<exists>ts'. threads_stop self stuck ts = Some (None, ts') \<and> ts_server ts' = server_stop (ts_server ts)
    \<and> ts_pool ts' = []"
  using assms
  by (simp add: threads_stop_def join_loop_all Let_def close_acceptor_def server_stop_def)

lemma threads_stop_self:
  assumes "\<not> srv_io_stopped (ts_server ts)" and "ts_pool ts = pool @ th # rest"
    and "\<forall>th \<in> set pool. th_joinable th \<longrightarrow> th_id th \<noteq> self \<and> \<not> stuck (th_id th)"
    and "th_joinable th" "th_id th = self"
  shows "threads_stop self stuck ts = Some (Some Resource_Deadlock_Would_Occur,
      ts\<lparr>ts_server := (ts_server ts)\<lparr>srv_io_stopped := True\<rparr>, ts_pool := joined pool @ th # rest\<rparr>)"
  using assms by (simp add: threads_stop_def join_loop_self Let_def)

lemma threads_stop_stopped:
  assumes "srv_io_stopped (ts_server ts)"
  shows "threads_stop self stuck ts = Some (None, close_acceptor ts)"
  using assms by (simp add: threads_stop_def)

lemma close_acceptor_sels [simp]:
  "ts_pool (close_acceptor ts) = ts_pool ts" "\<not> srv_acceptor_open (ts_server (close_acceptor ts))"
  by (simp_all add: close_acceptor_def)

text \<open>
  C18. Stopping a server that runs with its configured number of threads, from any thread. From a
  thread outside the pool, for instance the one that called \<open>run\<close>, \<open>stop\<close> returns when every
  handler does, with the pool empty, and does what the atomic \<open>stop\<close> does; it hangs when a
  handler on the pool never returns. From a thread of the pool, so from a handler that
  happens to run there, \<open>stop\<close> throws although it is documented as thread-safe: the
  \<open>io_context\<close> is stopped, but the acceptor stays open and the calling thread stays
  joinable; unless the handler catches the exception it ends the program, a further \<open>stop\<close>
  closes the acceptor but joins nothing, and destroying the server then ends the program.
\<close>

theorem stop_by_thread:
  assumes run: "threads_run net ts0 = (None, ts)" and empty: "ts_pool ts0 = []"
    and ids: "ids = th_id ` set (ts_pool ts)"
  shows "card ids + 1 = unat (opt_thread_num (srv_opts (ts_server ts)))
    \<and> (self \<notin> ids \<and> (\<forall>t \<in> ids. \<not> stuck t) \<longrightarrow>
        (\<exists>ts'. threads_stop self stuck ts = Some (None, ts') \<and> ts_server ts' = server_stop (ts_server ts)
           \<and> ts_pool ts' = []))
    \<and> (self \<notin> ids \<and> (\<exists>t \<in> ids. stuck t) \<longrightarrow> threads_stop self stuck ts = None)
    \<and> (self \<in> ids \<and> (\<forall>t \<in> ids. \<not> stuck t) \<longrightarrow>
        (\<exists>ts'. threads_stop self stuck ts = Some (Some Resource_Deadlock_Would_Occur, ts')
           \<and> srv_io_stopped (ts_server ts') \<and> srv_acceptor_open (ts_server ts') \<and> exception_terminates self ts'
           \<and> (\<exists>ts''. threads_stop self' stuck' ts' = Some (None, ts'')
               \<and> \<not> srv_acceptor_open (ts_server ts'') \<and> destruction_terminates ts'')))"
proof -
  let ?pool = "map (\<lambda>t. \<lparr>th_id = t, th_joinable = True\<rparr>)"
  let ?n = "ts_next ts0"
  have pool: "ts_pool ts = ?pool [?n ..< ts_next ts]" and srv: "ts_server ts = running_state (ts_server ts0)"
    and num: "?n \<le> ts_next ts" "ts_next ts + 1 = ?n + unat (opt_thread_num (srv_opts (ts_server ts0)))"
    using threads_run_pool [OF run] empty by auto
  have ids': "ids = {?n ..< ts_next ts}" by (simp add: ids pool image_image)
  have open_run: "\<not> srv_io_stopped (ts_server ts)" "srv_acceptor_open (ts_server ts)"
    "srv_opts (ts_server ts) = srv_opts (ts_server ts0)" by (simp_all add: srv running_state_def)
  have split: "ts_pool ts = ?pool [?n ..< t] @ \<lparr>th_id = t, th_joinable = True\<rparr> # ?pool [t + 1 ..< ts_next ts]"
    if "t \<in> ids" for t
    using that upt_split [of ?n t "ts_next ts"] by (simp add: pool ids')
  have "threads_stop self stuck ts = None" if out: "self \<notin> ids" and hangs: "\<exists>t \<in> ids. stuck t"
  proof -
    obtain t where t: "t \<in> ids" "stuck t" "\<forall>u < t. u \<in> ids \<longrightarrow> \<not> stuck u"
      using hangs exists_least_iff [of "\<lambda>t. t \<in> ids \<and> stuck t"] by auto
    have "join_loop self stuck (ts_pool ts) = None"
      unfolding split [OF t(1)] using t out by (intro join_loop_stuck) (auto simp: ids')
    with open_run show ?thesis by (simp add: threads_stop_def Let_def)
  qed
  moreover have "\<exists>ts'. threads_stop self stuck ts = Some (Some Resource_Deadlock_Would_Occur, ts')
      \<and> srv_io_stopped (ts_server ts') \<and> srv_acceptor_open (ts_server ts') \<and> exception_terminates self ts'
      \<and> (\<exists>ts''. threads_stop self' stuck' ts' = Some (None, ts'')
          \<and> \<not> srv_acceptor_open (ts_server ts'') \<and> destruction_terminates ts'')"
    if "self \<in> ids" "\<forall>t \<in> ids. \<not> stuck t"
    using threads_stop_self [OF open_run(1) split [OF that(1)], of self stuck] that open_run
    by (auto simp: ids' threads_stop_stopped exception_terminates_def destruction_terminates_def)
  moreover have "\<exists>ts'. threads_stop self stuck ts = Some (None, ts') \<and> ts_server ts' = server_stop (ts_server ts)
           \<and> ts_pool ts' = []" if "self \<notin> ids" "\<forall>t \<in> ids. \<not> stuck t"
    using that by (intro threads_stop_all [OF open_run(1)]) (auto simp: ids)
  ultimately show ?thesis using num open_run(3) by (auto simp: ids')
qed

theorem stop_by_thread_witness:
  "\<exists>ts ts'. threads_run good_net \<lparr>ts_server = demo_server, ts_pool = [], ts_next = 1\<rparr> = (None, ts)
     \<and> threads_stop 3 (\<lambda>t. False) ts = Some (Some Resource_Deadlock_Would_Occur, ts')
     \<and> srv_acceptor_open (ts_server ts')"
proof -
  let ?ts0 = "\<lparr>ts_server = demo_server, ts_pool = [], ts_next = 1\<rparr>"
  obtain ts where run: "threads_run good_net ?ts0 = (None, ts)"
    by (simp add: threads_run_def demo_run emplace_threads_eq)
  have "ts_next ts = 8" and "ts_pool ts = map (\<lambda>t. \<lparr>th_id = t, th_joinable = True\<rparr>) [1 ..< ts_next ts]"
    using threads_run_pool [OF run] by (simp_all add: demo_server_def new_HttpServerImpl_def default_options_def)
  then have "3 \<in> th_id ` set (ts_pool ts)" by (simp add: image_image)
  with stop_by_thread [OF run _ refl, of 3 "\<lambda>t. False"] run show ?thesis by auto
qed

end
