(* ===== verification/Http_Server.thy ===== *)
theory Http_Server
  imports Http_Server_Props Http_Log
begin

section \<open>The public class and the demo program (http\_server.cpp, demo/main.cpp)\<close>

text \<open>
  \<open>HttpServer\<close> holds a shared pointer to its implementation, which is null in a moved-from
  object; every operation asserts that it is not (\<open>None\<close> here: the assertion fails) and
  delegates. The demo program registers one handler that answers with a description of the
  request.
\<close>

subsection \<open>HttpServer\<close>

type_synonym ('m, 'h) http_server = "('m, 'h) http_server_impl option"

definition new_HttpServer :: "http_server_options \<Rightarrow> ('m, 'h) http_server" where
  "new_HttpServer opts = Some (new_HttpServerImpl opts)"

definition HttpServer_run ::
    "net_results \<Rightarrow> ('m, 'h) http_server \<Rightarrow> (server_error option \<times> ('m, 'h) http_server) option" where
  "HttpServer_run net server =
     map_option (\<lambda>impl. map_prod id Some (server_run net impl)) server"

definition HttpServer_stop :: "('m, 'h) http_server \<Rightarrow> ('m, 'h) http_server option" where
  "HttpServer_stop server = map_option (\<lambda>impl. Some (server_stop impl)) server"

definition HttpServer_registerHandler ::
    "'m boost \<Rightarrow> string \<Rightarrow> 'h option \<Rightarrow> ('m, 'h) http_server
       \<Rightarrow> (router_error + ('m, 'h) http_server) option" where
  "HttpServer_registerHandler B path handler server =
     map_option (\<lambda>impl. map_sum id Some (registerHandler B path handler impl)) server"

definition HttpServer_getHttpStatistics :: "('m, 'h) http_server \<Rightarrow> http_statistics option" where
  "HttpServer_getHttpStatistics server = map_option getHttpStatistics server"

subsection \<open>The demo program\<close>

text \<open>\<open>static_cast<int>\<close> of a method; an uninitialised method prints as any number, here 0.\<close>

fun method_int :: "method_type \<Rightarrow> nat" where
  "method_int Unknown = 0"
| "method_int Delete = 1"
| "method_int GET = 2"
| "method_int HEAD = 3"
| "method_int POST = 4"
| "method_int PUT = 5"
| "method_int (Unnamed n) = n"

lemma method_int_cast [simp]: "method_int (method_cast n) = n"
  by (simp add: method_cast_def)

definition pair_line :: "string \<Rightarrow> string \<times> string \<Rightarrow> string" where
  "pair_line title = (\<lambda>(k, v). title @ k @ '':'' @ v @ [CHR 0x0A])"

definition hello_body :: "http_request \<Rightarrow> string" where
  "hello_body request =
     ''receive method: '' @ digits (case HttpRequest_method request of None \<Rightarrow> 0 | Some m \<Rightarrow> method_int m) @ [CHR 0x0A]
     @ ''receive body: '' @ HttpRequest_body request @ [CHR 0x0A]
     @ concat (map (pair_line ''receive param: '') (HttpRequest_params request))
     @ concat (map (pair_line ''receive header: '') (HttpRequest_headers request))"

definition hello_handle :: "http_request \<Rightarrow> handle_outcome" where
  "hello_handle request =
     \<lparr>sent_now = [new_HttpResponse OK (hello_body request) ''text/plain''], kept_writer = False\<rparr>"

text \<open>
  \<open>main\<close> up to the event loop: the log level, the server with eight threads, the handler
  (number 0, the only one), \<open>run\<close>.
\<close>

definition demo_options :: http_server_options where
  "demo_options = default_options\<lparr>opt_thread_num := 8\<rparr>"

definition demo_main ::
    "'w spdlog \<Rightarrow> 'm boost \<Rightarrow> net_results \<Rightarrow> 'w log_state
       \<Rightarrow> 'w log_state \<times> (router_error + server_error option \<times> ('m, nat) http_server) option" where
  "demo_main S B net st =
     (setLogLevel S Info st,
      case HttpServer_registerHandler B ''/hello'' (Some 0) (new_HttpServer demo_options) of
        None \<Rightarrow> None
      | Some (Inl e) \<Rightarrow> Some (Inl e)
      | Some (Inr server) \<Rightarrow> map_option Inr (HttpServer_run net server))"

end
