(* ===== verification/Gzip.thy ===== *)
theory Gzip
  imports Http_Prelude
begin

section \<open>The gzip header and footer parsers (gzip.cpp)\<close>

text \<open>
  The two byte-at-a-time state machines of gzip.cpp: \<open>gzip_header\<close> and \<open>gzip_footer\<close>. The
  class declarations and the constants of the format are in Boost's \<open>gzip.hpp\<close>, which is
  not part of the repository: the constants are the parameter \<open>gzip_consts\<close>, and the widths
  of \<open>mtime_\<close>, \<open>xlen_\<close>, \<open>crc_\<close> and \<open>isize_\<close> are type variables, so that the theorems hold
  for every width the declarations may choose. A \<open>char\<close> is its byte.

  In \<open>value << (offset_ * 8)\<close> the byte is promoted to a 32-bit \<open>int\<close>, so the term added is
  the sign extension of a 32-bit word (\<open>shl_int\<close>). \<open>BOOST_ASSERT(0)\<close> is the error
  \<open>Assertion\<close>: the model is of a build with assertions enabled. With \<open>NDEBUG\<close> the macro is empty,
  and a byte given to a parser that is done is ignored.
\<close>

unbundle bit_operations_syntax

subsection \<open>Data\<close>

record gzip_consts =
  magic_id1 :: u8
  magic_id2 :: u8
  method_deflate :: u8
  flag_extra :: u8
  flag_name :: u8
  flag_comment :: u8
  flag_header_crc :: u8

datatype gzip_error = Bad_Header | Bad_Method | Assertion

datatype header_state =
  S_id1 | S_id2 | S_cm | S_flg | S_mtime | S_xfl | S_os | S_xlen | S_extra | S_name | S_comment
  | S_hcrc | S_done

record ('t, 'x) gzip_header =
  gh_file_name :: "u8 list"
  gh_comment :: "u8 list"
  gh_os :: u8
  gh_flags :: u8
  gh_state :: header_state
  gh_offset :: nat
  gh_xlen :: 'x
  gh_mtime :: 't

datatype footer_state = F_crc | F_isize | F_done

record ('c, 'i) gzip_footer =
  gf_crc :: 'c
  gf_isize :: 'i
  gf_offset :: nat
  gf_state :: footer_state

subsection \<open>Operations\<close>

definition shl_int :: "u8 \<Rightarrow> nat \<Rightarrow> 'w::len word" where
  "shl_int v offset = signed (push_bit (offset * 8) (ucast v :: u32))"

text \<open>The chains of flag tests that choose the next optional field.\<close>

definition after_comment :: "gzip_consts \<Rightarrow> u8 \<Rightarrow> header_state" where
  "after_comment G flags = (if flags AND flag_header_crc G \<noteq> 0 then S_hcrc else S_done)"

definition after_name :: "gzip_consts \<Rightarrow> u8 \<Rightarrow> header_state" where
  "after_name G flags = (if flags AND flag_comment G \<noteq> 0 then S_comment else after_comment G flags)"

definition after_extra :: "gzip_consts \<Rightarrow> u8 \<Rightarrow> header_state" where
  "after_extra G flags = (if flags AND flag_name G \<noteq> 0 then S_name else after_name G flags)"

definition after_os :: "gzip_consts \<Rightarrow> u8 \<Rightarrow> header_state" where
  "after_os G flags = (if flags AND flag_extra G \<noteq> 0 then S_xlen else after_extra G flags)"

definition header_process ::
    "gzip_consts \<Rightarrow> u8 \<Rightarrow> ('t::len word, 'x::len word) gzip_header \<Rightarrow> gzip_error + ('t word, 'x word) gzip_header" where
  "header_process G c h = (case gh_state h of
     S_id1 \<Rightarrow> if c \<noteq> magic_id1 G then Inl Bad_Header else Inr (h\<lparr>gh_state := S_id2\<rparr>)
   | S_id2 \<Rightarrow> if c \<noteq> magic_id2 G then Inl Bad_Header else Inr (h\<lparr>gh_state := S_cm\<rparr>)
   | S_cm \<Rightarrow> if c \<noteq> method_deflate G then Inl Bad_Method else Inr (h\<lparr>gh_state := S_flg\<rparr>)
   | S_flg \<Rightarrow> Inr (h\<lparr>gh_flags := c, gh_state := S_mtime\<rparr>)
   | S_mtime \<Rightarrow>
       (let h = h\<lparr>gh_mtime := gh_mtime h + shl_int c (gh_offset h)\<rparr>
        in if gh_offset h = 3 then Inr (h\<lparr>gh_state := S_xfl, gh_offset := 0\<rparr>)
           else Inr (h\<lparr>gh_offset := gh_offset h + 1\<rparr>))
   | S_xfl \<Rightarrow> Inr (h\<lparr>gh_state := S_os\<rparr>)
   | S_os \<Rightarrow> Inr (h\<lparr>gh_os := c, gh_state := after_os G (gh_flags h)\<rparr>)
   | S_xlen \<Rightarrow>
       (let h = h\<lparr>gh_xlen := gh_xlen h + shl_int c (gh_offset h)\<rparr>
        in if gh_offset h = 1 then Inr (h\<lparr>gh_state := S_extra, gh_offset := 0\<rparr>)
           else Inr (h\<lparr>gh_offset := gh_offset h + 1\<rparr>))
   | S_extra \<Rightarrow>
       (let h = h\<lparr>gh_xlen := gh_xlen h - 1\<rparr>
        in if gh_xlen h = 0 then Inr (h\<lparr>gh_state := after_extra G (gh_flags h)\<rparr>) else Inr h)
   | S_name \<Rightarrow>
       if c \<noteq> 0 then Inr (h\<lparr>gh_file_name := gh_file_name h @ [c]\<rparr>)
       else Inr (h\<lparr>gh_state := after_name G (gh_flags h)\<rparr>)
   | S_comment \<Rightarrow>
       if c \<noteq> 0 then Inr (h\<lparr>gh_comment := gh_comment h @ [c]\<rparr>)
       else Inr (h\<lparr>gh_state := after_comment G (gh_flags h)\<rparr>)
   | S_hcrc \<Rightarrow>
       if gh_offset h = 1 then Inr (h\<lparr>gh_state := S_done, gh_offset := 0\<rparr>)
       else Inr (h\<lparr>gh_offset := gh_offset h + 1\<rparr>)
   | S_done \<Rightarrow> Inl Assertion)"

definition header_reset :: "('t::len word, 'x::len word) gzip_header \<Rightarrow> ('t word, 'x word) gzip_header" where
  "header_reset h = h\<lparr>gh_file_name := [], gh_comment := [], gh_os := 0, gh_flags := 0,
     gh_offset := 0, gh_xlen := 0, gh_mtime := 0, gh_state := S_id1\<rparr>"

definition footer_process ::
    "u8 \<Rightarrow> ('c::len word, 'i::len word) gzip_footer \<Rightarrow> gzip_error + ('c word, 'i word) gzip_footer" where
  "footer_process c f =
     (if gf_state f = F_crc
      then let f = f\<lparr>gf_crc := gf_crc f + shl_int c (gf_offset f)\<rparr>
           in if gf_offset f = 3 then Inr (f\<lparr>gf_state := F_isize, gf_offset := 0\<rparr>)
              else Inr (f\<lparr>gf_offset := gf_offset f + 1\<rparr>)
      else if gf_state f = F_isize
      then let f = f\<lparr>gf_isize := gf_isize f + shl_int c (gf_offset f)\<rparr>
           in if gf_offset f = 3 then Inr (f\<lparr>gf_state := F_done, gf_offset := 0\<rparr>)
              else Inr (f\<lparr>gf_offset := gf_offset f + 1\<rparr>)
      else Inl Assertion)"

definition footer_reset :: "('c::len word, 'i::len word) gzip_footer \<Rightarrow> ('c word, 'i word) gzip_footer" where
  "footer_reset f = f\<lparr>gf_crc := 0, gf_isize := 0, gf_offset := 0, gf_state := F_crc\<rparr>"

subsection \<open>Feeding a machine\<close>

text \<open>Both machines are fed one byte at a time until an error.\<close>

fun feed :: "(u8 \<Rightarrow> 's \<Rightarrow> 'e + 's) \<Rightarrow> u8 list \<Rightarrow> 's \<Rightarrow> 'e + 's" where
  "feed process [] s = Inr s"
| "feed process (c # cs) s = (case process c s of Inl e \<Rightarrow> Inl e | Inr s' \<Rightarrow> feed process cs s')"

lemma feed_append:
  "feed process (cs @ ds) s =
     (case feed process cs s of Inl e \<Rightarrow> Inl e | Inr s' \<Rightarrow> feed process ds s')"
  by (induction cs arbitrary: s) (auto split: sum.splits)

lemma feed_append_Inr: "feed process cs s = Inr s' \<Longrightarrow> feed process (cs @ ds) s = feed process ds s'"
  by (simp add: feed_append)

text \<open>A 32-bit number as the bytes the format stores, least significant first.\<close>

definition le32 :: "u32 \<Rightarrow> u8 list" where
  "le32 n = [ucast n, ucast (drop_bit 8 n), ucast (drop_bit 16 n), ucast (drop_bit 24 n)]"

definition le16 :: "nat \<Rightarrow> u8 list" where
  "le16 n = [of_nat (n mod 256), of_nat (n div 256)]"

lemma le32_sum:
  "shl_int (ucast n) 0 + shl_int (ucast (drop_bit 8 n)) 1 + shl_int (ucast (drop_bit 16 n)) 2
     + shl_int (ucast (drop_bit 24 n)) 3 = (signed (n :: u32) :: 'w::len word)"
proof -
  define p where "p k = push_bit (8 * k) (ucast (ucast (drop_bit (8 * k) n) :: u8) :: u32)" for k
  have bit_p: "bit (p k) i \<longleftrightarrow> i < 32 \<and> 8 * k \<le> i \<and> i < 8 * k + 8 \<and> bit n i" for k i
    by (auto simp: p_def bit_simps)
  have disj: "signed (a OR b) = (signed a + signed b :: 'w word)" if "\<And>i. i < 32 \<Longrightarrow> \<not> (bit a i \<and> bit b i)"
    for a b :: u32
  proof -
    have "signed a + signed b = (signed a OR signed b :: 'w word)"
      using that by (intro disjunctive_add) (auto simp: bit_simps)
    then show ?thesis by (simp add: signed_or_eq)
  qed
  have "n = ((p 0 OR p 1) OR p 2) OR p 3"
    by (rule bit_word_eqI) (auto simp: bit_or_iff bit_p)
  then have "signed n = (signed (((p 0 OR p 1) OR p 2) OR p 3) :: 'w word)" by simp
  also have "\<dots> = signed (p 0) + signed (p 1) + signed (p 2) + signed (p 3)"
    by (subst disj, simp add: bit_or_iff bit_p)+ (simp add: disj bit_p)
  finally show ?thesis by (simp add: p_def shl_int_def)
qed

subsection \<open>Reference encoding of a header\<close>

record gzip_fields =
  fld_mtime :: u32
  fld_xfl :: u8
  fld_os :: u8
  fld_extra :: "u8 list option"
  fld_name :: "u8 list option"
  fld_comment :: "u8 list option"
  fld_hcrc :: "(u8 \<times> u8) option"

definition fields_flags :: "gzip_consts \<Rightarrow> gzip_fields \<Rightarrow> u8" where
  "fields_flags G f =
     (if fld_extra f = None then 0 else flag_extra G) OR (if fld_name f = None then 0 else flag_name G)
     OR (if fld_comment f = None then 0 else flag_comment G)
     OR (if fld_hcrc f = None then 0 else flag_header_crc G)"

definition encode_extra :: "gzip_fields \<Rightarrow> u8 list" where
  "encode_extra f = (case fld_extra f of None \<Rightarrow> [] | Some xs \<Rightarrow> le16 (length xs) @ xs)"

definition encode_text :: "u8 list option \<Rightarrow> u8 list" where
  "encode_text t = (case t of None \<Rightarrow> [] | Some xs \<Rightarrow> xs @ [0])"

definition encode_hcrc :: "gzip_fields \<Rightarrow> u8 list" where
  "encode_hcrc f = (case fld_hcrc f of None \<Rightarrow> [] | Some (a, b) \<Rightarrow> [a, b])"

definition encode_header :: "gzip_consts \<Rightarrow> gzip_fields \<Rightarrow> u8 list" where
  "encode_header G f =
     [magic_id1 G, magic_id2 G, method_deflate G, fields_flags G f] @ le32 (fld_mtime f)
     @ [fld_xfl f, fld_os f] @ encode_extra f @ encode_text (fld_name f)
     @ encode_text (fld_comment f) @ encode_hcrc f"

text \<open>
  The four flags are non-zero and have no bit in common; an encodable field list has an
  extra field of at least one and less than 2 to the 16 bytes, and texts without zero bytes.
\<close>

definition flag_laws :: "gzip_consts \<Rightarrow> bool" where
  "flag_laws G \<longleftrightarrow>
     flag_extra G \<noteq> 0 \<and> flag_name G \<noteq> 0 \<and> flag_comment G \<noteq> 0 \<and> flag_header_crc G \<noteq> 0
     \<and> flag_extra G AND flag_name G = 0 \<and> flag_extra G AND flag_comment G = 0
     \<and> flag_extra G AND flag_header_crc G = 0 \<and> flag_name G AND flag_comment G = 0
     \<and> flag_name G AND flag_header_crc G = 0 \<and> flag_comment G AND flag_header_crc G = 0"

definition fields_ok :: "gzip_fields \<Rightarrow> bool" where
  "fields_ok f \<longleftrightarrow>
     (\<forall>xs. fld_extra f = Some xs \<longrightarrow> xs \<noteq> [] \<and> length xs < 2 ^ 16)
     \<and> (\<forall>xs. fld_name f = Some xs \<longrightarrow> 0 \<notin> set xs)
     \<and> (\<forall>xs. fld_comment f = Some xs \<longrightarrow> 0 \<notin> set xs)"

lemma fields_flags_test:
  assumes "flag_laws G"
  shows "fields_flags G f AND flag_extra G \<noteq> 0 \<longleftrightarrow> fld_extra f \<noteq> None"
    and "fields_flags G f AND flag_name G \<noteq> 0 \<longleftrightarrow> fld_name f \<noteq> None"
    and "fields_flags G f AND flag_comment G \<noteq> 0 \<longleftrightarrow> fld_comment f \<noteq> None"
    and "fields_flags G f AND flag_header_crc G \<noteq> 0 \<longleftrightarrow> fld_hcrc f \<noteq> None"
  using assms
  by (auto simp: flag_laws_def fields_flags_def bit.conj_disj_distrib bit.conj_disj_distrib2
      and.commute)

subsection \<open>The phases of the header machine\<close>

lemma le16_sum:
  assumes "n < 2 ^ 16"
  shows "shl_int (of_nat (n mod 256)) 0 + shl_int (of_nat (n div 256)) 1 = (of_nat n :: 'w::len word)"
proof -
  let ?n = "of_nat n :: u32"
  have small: "unat ?n = n" using assms by (simp add: unsigned_of_nat take_bit_nat_eq_self)
  have b0: "(ucast ?n :: u8) = of_nat (n mod 256)"
    by (rule word_unat_eq_iff [THEN iffD2]) (use small in \<open>simp add: unsigned_of_nat unsigned_ucast_eq take_bit_eq_mod\<close>)
  have b1: "(ucast (drop_bit 8 ?n) :: u8) = of_nat (n div 256)"
    by (rule word_unat_eq_iff [THEN iffD2])
      (use small in \<open>simp add: unsigned_of_nat unsigned_ucast_eq take_bit_eq_mod drop_bit_eq_div unat_div_distrib\<close>)
  have b2: "drop_bit 16 ?n = 0" "drop_bit 24 ?n = 0"
    using small assms by (simp_all add: word_unat_eq_iff drop_bit_eq_div unat_div_distrib)
  have "signed_take_bit 31 (int n) = int n"
    by (rule signed_take_bit_int_eq_self) (use assms in auto)
  then have "(signed ?n :: 'w word) = of_nat n" by (simp add: signed_of_nat)
  with le32_sum [of ?n, where ?'w = 'w] show ?thesis
    by (simp add: b0 b1 b2) (simp add: shl_int_def)
qed

lemma feed_fixed:
  fixes h :: "('t::len word, 'x::len word) gzip_header"
  assumes "gh_state h = S_id1" "gh_offset h = 0" "gh_mtime h = 0"
  shows "feed (header_process G)
      ([magic_id1 G, magic_id2 G, method_deflate G, flags] @ le32 m @ [xfl, os]) h
    = Inr (h\<lparr>gh_flags := flags, gh_mtime := signed m, gh_os := os, gh_state := after_os G flags\<rparr>)"
  using assms le32_sum [of m, where ?'w = 't]
  by (simp add: header_process_def le32_def eval_nat_numeral)

lemma feed_extra:
  fixes h :: "('t::len word, 'x::len word) gzip_header"
  assumes "gh_state h = S_extra" "gh_xlen h = of_nat (length xs)" "xs \<noteq> []"
    "length xs < 2 ^ LENGTH('x)"
  shows "feed (header_process G) xs h =
    Inr (h\<lparr>gh_xlen := 0, gh_state := after_extra G (gh_flags h)\<rparr>)"
  using assms
proof (induction xs arbitrary: h)
  case (Cons c cs)
  show ?case
  proof (cases "cs = []")
    case True
    with Cons.prems show ?thesis by (simp add: header_process_def)
  next
    case False
    with Cons.prems have "(of_nat (length cs) :: 'x word) \<noteq> 0"
      by (simp add: word_of_nat_eq_0_iff nat_dvd_not_less)
    with Cons.prems have "header_process G c h = Inr (h\<lparr>gh_xlen := of_nat (length cs)\<rparr>)"
      by (simp add: header_process_def)
    with Cons.prems False Cons.IH [of "h\<lparr>gh_xlen := of_nat (length cs)\<rparr>"] show ?thesis by simp
  qed
qed simp

lemma feed_name:
  assumes "gh_state h = S_name" "0 \<notin> set xs"
  shows "feed (header_process G) (xs @ [0]) h =
    Inr (h\<lparr>gh_file_name := gh_file_name h @ xs, gh_state := after_name G (gh_flags h)\<rparr>)"
  using assms by (induction xs arbitrary: h) (auto simp: header_process_def)

lemma feed_comment:
  assumes "gh_state h = S_comment" "0 \<notin> set xs"
  shows "feed (header_process G) (xs @ [0]) h =
    Inr (h\<lparr>gh_comment := gh_comment h @ xs, gh_state := after_comment G (gh_flags h)\<rparr>)"
  using assms by (induction xs arbitrary: h) (auto simp: header_process_def)

lemma stage_extra:
  fixes h :: "('t::len word, 'x::len word) gzip_header"
  assumes "flag_laws G" "fields_ok f" "16 \<le> LENGTH('x)"
    and h: "gh_flags h = fields_flags G f" "gh_state h = after_os G (gh_flags h)" "gh_offset h = 0" "gh_xlen h = 0"
  shows "feed (header_process G) (encode_extra f) h = Inr (h\<lparr>gh_state := after_extra G (gh_flags h)\<rparr>)"
proof (cases "fld_extra f")
  case None
  with assms fields_flags_test(1) [of G f] show ?thesis by (simp add: encode_extra_def after_os_def)
next
  case (Some xs)
  with \<open>fields_ok f\<close> have xs: "xs \<noteq> []" "length xs < 2 ^ 16" by (auto simp: fields_ok_def)
  from Some h fields_flags_test(1) [OF assms(1), of f] have "gh_state h = S_xlen"
    by (simp add: after_os_def)
  then have "feed (header_process G) (le16 (length xs)) h =
      Inr (h\<lparr>gh_state := S_extra, gh_xlen := of_nat (length xs)\<rparr>)"
    using h le16_sum [OF xs(2), where ?'w = 'x] by (simp add: header_process_def le16_def)
  moreover have "length xs < 2 ^ LENGTH('x)"
    using xs(2) \<open>16 \<le> LENGTH('x)\<close> by (meson less_le_trans one_le_numeral power_increasing)
  ultimately show ?thesis
    using h xs by (simp add: Some encode_extra_def feed_append_Inr feed_extra)
qed

lemma stage_name:
  assumes "flag_laws G" "fields_ok f"
    and "gh_flags h = fields_flags G f" "gh_state h = after_extra G (gh_flags h)"
  shows "feed (header_process G) (encode_text (fld_name f)) h =
    Inr (h\<lparr>gh_file_name := gh_file_name h @ (case fld_name f of None \<Rightarrow> [] | Some n \<Rightarrow> n),
           gh_state := after_name G (gh_flags h)\<rparr>)"
  using assms fields_flags_test(2) [of G f]
  by (auto simp: encode_text_def after_extra_def fields_ok_def feed_name split: option.split)

lemma stage_comment:
  assumes "flag_laws G" "fields_ok f"
    and "gh_flags h = fields_flags G f" "gh_state h = after_name G (gh_flags h)"
  shows "feed (header_process G) (encode_text (fld_comment f)) h =
    Inr (h\<lparr>gh_comment := gh_comment h @ (case fld_comment f of None \<Rightarrow> [] | Some n \<Rightarrow> n),
           gh_state := after_comment G (gh_flags h)\<rparr>)"
  using assms fields_flags_test(3) [of G f]
  by (auto simp: encode_text_def after_name_def fields_ok_def feed_comment split: option.split)

lemma stage_hcrc:
  assumes "flag_laws G"
    and "gh_flags h = fields_flags G f" "gh_state h = after_comment G (gh_flags h)" "gh_offset h = 0"
  shows "feed (header_process G) (encode_hcrc f) h = Inr (h\<lparr>gh_state := S_done\<rparr>)"
  using assms fields_flags_test(4) [of G f]
  by (auto simp: encode_hcrc_def after_comment_def header_process_def split: option.split)

text \<open>The fields of a header read to its end.\<close>

definition decoded :: "gzip_consts \<Rightarrow> gzip_fields \<Rightarrow> ('t::len word, 'x::len word) gzip_header" where
  "decoded G f =
     \<lparr>gh_file_name = (case fld_name f of None \<Rightarrow> [] | Some n \<Rightarrow> n),
      gh_comment = (case fld_comment f of None \<Rightarrow> [] | Some n \<Rightarrow> n),
      gh_os = fld_os f, gh_flags = fields_flags G f, gh_state = S_done, gh_offset = 0,
      gh_xlen = 0, gh_mtime = signed (fld_mtime f)\<rparr>"

lemma feed_header:
  fixes h :: "('t::len word, 'x::len word) gzip_header"
  assumes laws: "flag_laws G" and ok: "fields_ok f" and x: "16 \<le> LENGTH('x)"
  shows "feed (header_process G) (encode_header G f) (header_reset h) = Inr (decoded G f)"
proof -
  let ?h = "(header_reset h)\<lparr>gh_flags := fields_flags G f, gh_mtime := signed (fld_mtime f),
      gh_os := fld_os f, gh_state := after_os G (fields_flags G f)\<rparr>"
  have "feed (header_process G) (encode_header G f) (header_reset h) =
      feed (header_process G) (encode_extra f @ encode_text (fld_name f)
        @ encode_text (fld_comment f) @ encode_hcrc f) ?h"
    using feed_append_Inr [OF feed_fixed [of "header_reset h" G "fields_flags G f" "fld_mtime f"]]
    by (simp add: encode_header_def header_reset_def)
  also have "\<dots> = Inr (decoded G f)"
    using laws ok x
    by (simp add: feed_append stage_extra stage_name stage_comment stage_hcrc header_reset_def
        decoded_def)
  finally show ?thesis .
qed

subsection \<open>Properties\<close>

definition ref_gzip :: gzip_consts where
  "ref_gzip = \<lparr>magic_id1 = 0x1f, magic_id2 = 0x8b, method_deflate = 8, flag_extra = 4, flag_name = 8,
     flag_comment = 16, flag_header_crc = 2\<rparr>"

lemma ref_flag_laws: "flag_laws ref_gzip"
  by (simp add: flag_laws_def ref_gzip_def)

definition ref_fields :: gzip_fields where
  "ref_fields = \<lparr>fld_mtime = 0x12345678, fld_xfl = 0, fld_os = 3, fld_extra = Some [1, 2, 3],
     fld_name = Some [97, 98], fld_comment = Some [], fld_hcrc = Some (7, 9)\<rparr>"

definition blank_header :: "(64 word, 32 word) gzip_header" where
  "blank_header = \<lparr>gh_file_name = [9], gh_comment = [], gh_os = 5, gh_flags = 1, gh_state = S_done,
     gh_offset = 1, gh_xlen = 77, gh_mtime = 3\<rparr>"

text \<open>
  C27. Reading back an encoded gzip header: whatever the reset parser held before, feeding it
  the encoding of fields the format allows and the parser can read (\<open>fields_ok\<close>: each optional
  field present or not, no zero byte in the name or the comment, and an extra field that is not
  empty and shorter than 2 to the 16, since C29 shows that an empty one is not parsed) ends without
  error in the state \<open>s_done\<close> with the name, comment, OS byte and flags encoded and the
  modification time as the sign extension of its 32 bits; the extra flags byte, the extra
  field's bytes and the header checksum are read over and not kept. No proper prefix of the
  encoding reaches \<open>s_done\<close>.
\<close>

theorem gzip_header_roundtrip:
  fixes h :: "('t::len word, 'x::len word) gzip_header"
  assumes "flag_laws G" and "fields_ok f" and "16 \<le> LENGTH('x)"
  shows "feed (header_process G) (encode_header G f) (header_reset h) = Inr (decoded G f)
    \<and> (\<forall>p q. encode_header G f = p @ q \<and> q \<noteq> [] \<longrightarrow>
         (\<exists>h'. feed (header_process G) p (header_reset h) = Inr h' \<and> gh_state h' \<noteq> S_done))"
proof (intro conjI allI impI)
  show all: "feed (header_process G) (encode_header G f) (header_reset h) = Inr (decoded G f)"
    using feed_header assms by blast
  fix p q assume "encode_header G f = p @ q \<and> q \<noteq> []"
  then obtain c r where pq: "encode_header G f = p @ c # r" by (auto simp: neq_Nil_conv)
  from all obtain h' where h': "feed (header_process G) p (header_reset h) = Inr h'"
    "feed (header_process G) (c # r) h' = Inr (decoded G f :: ('t word, 'x word) gzip_header)"
    by (auto simp: pq feed_append simp del: feed.simps split: sum.splits)
  from h'(2) have "gh_state h' \<noteq> S_done" by (auto simp: header_process_def)
  with h'(1) show "\<exists>h'. feed (header_process G) p (header_reset h) = Inr h' \<and> gh_state h' \<noteq> S_done"
    by blast
qed

theorem gzip_header_roundtrip_witness:
  "feed (header_process ref_gzip) (encode_header ref_gzip ref_fields) (header_reset blank_header)
    = Inr \<lparr>gh_file_name = [97, 98], gh_comment = [], gh_os = 3, gh_flags = 30, gh_state = S_done,
           gh_offset = 0, gh_xlen = 0, gh_mtime = 0x12345678\<rparr>"
proof -
  have "fields_ok ref_fields" by (simp add: fields_ok_def ref_fields_def)
  from gzip_header_roundtrip [OF ref_flag_laws this, of blank_header] show ?thesis
    by (simp add: decoded_def fields_flags_def ref_fields_def ref_gzip_def)
qed

lemma ucast_signed_u32:
  assumes "32 \<le> LENGTH('c::len)"
  shows "(ucast (signed n :: 'c word) :: u32) = n"
proof (rule bit_word_eqI)
  fix i assume "i < LENGTH(32)"
  then have "min 31 i = i" by simp
  with \<open>i < LENGTH(32)\<close> assms show "bit (ucast (signed n :: 'c word) :: u32) i = bit n i"
    by (auto simp: bit_simps)
qed

text \<open>
  C28. The footer parser reads the checksum and the size back from their eight bytes: it ends in
  \<open>s_done\<close> exactly at the eighth, with both fields equal to the numbers stored in their low
  32 bits, whatever the widths (at least 32) the fields are declared with; the ninth byte
  is refused.
\<close>

theorem gzip_footer_roundtrip:
  fixes f :: "('c::len word, 'i::len word) gzip_footer"
  assumes "32 \<le> LENGTH('c)" and "32 \<le> LENGTH('i)"
  shows "\<exists>f'. feed footer_process (le32 crc @ le32 isize) (footer_reset f) = Inr f'
    \<and> gf_state f' = F_done \<and> gf_offset f' = 0
    \<and> (ucast (gf_crc f') :: u32) = crc \<and> (ucast (gf_isize f') :: u32) = isize
    \<and> (\<forall>c. feed footer_process (le32 crc @ le32 isize @ [c]) (footer_reset f) = Inl Assertion)"
proof -
  let ?f = "\<lparr>gf_crc = signed crc, gf_isize = signed isize, gf_offset = 0, gf_state = F_done,
      \<dots> = gzip_footer.more f\<rparr> :: ('c word, 'i word) gzip_footer"
  have run: "feed footer_process (le32 crc @ le32 isize) (footer_reset f) = Inr ?f"
    using le32_sum [of crc, where ?'w = 'c] le32_sum [of isize, where ?'w = 'i]
    by (simp add: le32_def footer_process_def footer_reset_def eval_nat_numeral)
  moreover have "feed footer_process ((le32 crc @ le32 isize) @ [c]) (footer_reset f) = Inl Assertion" for c
    by (simp add: feed_append_Inr [OF run] footer_process_def del: append_assoc)
  ultimately show ?thesis using assms by (simp add: ucast_signed_u32)
qed

theorem gzip_footer_roundtrip_witness:
  "\<exists>f'. feed footer_process (le32 0xCBF43926 @ le32 9)
      (footer_reset \<lparr>gf_crc = 1 :: 64 word, gf_isize = 2 :: u32, gf_offset = 3, gf_state = F_isize\<rparr>) = Inr f'
    \<and> (ucast (gf_crc f') :: u32) = 0xCBF43926 \<and> gf_isize f' = 9"
  using gzip_footer_roundtrip [where crc = "0xCBF43926" and isize = 9 and f =
      "\<lparr>gf_crc = 1 :: 64 word, gf_isize = 2 :: u32, gf_offset = 3, gf_state = F_isize\<rparr>"]
  by auto

text \<open>
  C29. An extra field of length zero, which the format allows, is not recognised as empty:
  the length is decremented before it is tested, so after the two zero bytes the machine
  takes every following byte for the extra field, until the counter has gone through all
  the values of its type.
\<close>

theorem empty_extra_field_swallows:
  fixes h :: "('t::len word, 'x::len word) gzip_header"
  assumes "gh_state h = S_xlen" "gh_offset h = 0" "gh_xlen h = 0"
    and "length cs < 2 ^ LENGTH('x)"
  shows "feed (header_process G) (le16 0 @ cs) h =
    Inr (h\<lparr>gh_state := S_extra, gh_xlen := - of_nat (length cs)\<rparr>)"
proof -
  let ?h = "\<lambda>n. h\<lparr>gh_state := S_extra, gh_xlen := - of_nat n\<rparr>"
  have start: "feed (header_process G) (le16 0) h = Inr (?h 0)"
    using assms by (simp add: le16_def header_process_def shl_int_def)
  have go: "feed (header_process G) cs (?h n) = Inr (?h (n + length cs))"
    if "n + length cs < 2 ^ LENGTH('x)" for n
    using that
  proof (induction cs arbitrary: n)
    case (Cons c cs)
    then have "(of_nat (Suc n) :: 'x word) \<noteq> 0"
      by (subst word_of_nat_eq_0_iff) (auto dest!: dvd_imp_le)
    then have "- of_nat n - 1 \<noteq> (0 :: 'x word)"
      by (metis neg_equal_0_iff_equal of_nat_Suc minus_add_distrib uminus_add_conv_diff)
    then have "header_process G c (?h n) = Inr (?h (Suc n))"
      by (simp add: header_process_def)
    with Cons.IH [of "Suc n"] Cons.prems show ?case by simp
  qed simp
  from start go [of 0] assms(4) show ?thesis by (simp add: feed_append)
qed

theorem empty_extra_field_swallows_witness:
  "\<exists>h. feed (header_process ref_gzip) (le16 0 @ [97, 0, 97, 0])
      (blank_header\<lparr>gh_state := S_xlen, gh_offset := 0, gh_xlen := 0\<rparr>) = Inr h \<and> gh_state h = S_extra"
  using empty_extra_field_swallows
    [of "blank_header\<lparr>gh_state := S_xlen, gh_offset := 0, gh_xlen := 0\<rparr>" "[97, 0, 97, 0]" ref_gzip]
  by simp

end
