(* ===== verification/Zlib.thy ===== *)
theory Zlib
  imports Http_Types
begin

section \<open>The zlib filter base (zlib.cpp)\<close>

text \<open>
  \<open>zlib_error::check\<close> and the operations of \<open>zlib_base\<close>: the hand-over of the caller's buffers to
  the \<open>z_stream\<close> (\<open>before\<close>), the calls of zlib, and the hand-back with the running checksum
  (\<open>after\<close>). zlib itself is the parameter \<open>zlib\<close>, with its state of type \<open>'z\<close> and its checksums
  of type \<open>'c\<close>; pointers are addresses into a memory of bytes. \<open>zlib::uint\<close>, through which the
  buffer lengths pass, has 32 bits.
\<close>

subsection \<open>Data\<close>

type_synonym memory = "nat \<Rightarrow> u8"

definition bytes :: "memory \<Rightarrow> nat \<Rightarrow> nat \<Rightarrow> u8 list" where
  "bytes mem a n = map mem [a ..< a + n]"

record 'z z_stream =
  next_in :: nat
  avail_in :: u32
  total_in :: u64
  next_out :: nat
  avail_out :: u32
  total_out :: u64
  zalloc :: nat
  zfree :: nat
  opaque :: nat
  z_internal :: 'z

record zlib_params =
  p_level :: int
  p_method :: int
  p_window_bits :: int
  p_mem_level :: int
  p_strategy :: int
  p_noheader :: bool
  p_calculate_crc :: bool

record ('z, 'c) zlib =
  Z_NO_COMPRESSION :: int
  Z_BEST_SPEED :: int
  Z_BEST_COMPRESSION :: int
  Z_DEFAULT_COMPRESSION :: int
  Z_DEFLATED :: int
  Z_DEFAULT_STRATEGY :: int
  Z_FILTERED :: int
  Z_HUFFMAN_ONLY :: int
  Z_OK :: int
  Z_STREAM_END :: int
  Z_STREAM_ERROR :: int
  Z_VERSION_ERROR :: int
  Z_DATA_ERROR :: int
  Z_MEM_ERROR :: int
  Z_BUF_ERROR :: int
  Z_FINISH :: int
  Z_NO_FLUSH :: int
  Z_SYNC_FLUSH :: int
  z_deflate :: "int \<Rightarrow> 'z z_stream \<times> memory \<Rightarrow> int \<times> 'z z_stream \<times> memory"
  z_inflate :: "int \<Rightarrow> 'z z_stream \<times> memory \<Rightarrow> int \<times> 'z z_stream \<times> memory"
  deflateReset :: "'z z_stream \<Rightarrow> 'z z_stream"
  inflateReset :: "'z z_stream \<Rightarrow> 'z z_stream"
  deflateEnd :: "'z z_stream \<Rightarrow> 'z z_stream"
  inflateEnd :: "'z z_stream \<Rightarrow> 'z z_stream"
  deflateInit2 :: "int \<Rightarrow> int \<Rightarrow> int \<Rightarrow> int \<Rightarrow> int \<Rightarrow> 'z z_stream \<Rightarrow> int \<times> 'z z_stream"
  inflateInit2 :: "int \<Rightarrow> 'z z_stream \<Rightarrow> int \<times> 'z z_stream"
  crc32_init :: 'c
  crc32 :: "'c \<Rightarrow> u8 list \<Rightarrow> 'c"

record ('z, 'c) zlib_base =
  zb_stream :: "'z z_stream"
  zb_calculate_crc :: bool
  zb_crc :: 'c
  zb_crc_imp :: 'c
  zb_total_in :: u64
  zb_total_out :: u64

datatype zlib_failure = Bad_Alloc | Zlib_Error int

text \<open>The constants Boost republishes, in their groups: levels, method, strategies, status and flush codes.\<close>

record zlib_constants =
  no_compression :: int
  best_speed :: int
  best_compression :: int
  default_compression :: int
  deflated :: int
  default_strategy :: int
  filtered_strategy :: int
  huffman_only :: int
  okay :: int
  stream_end :: int
  stream_error :: int
  version_error :: int
  data_error :: int
  mem_error :: int
  buf_error :: int
  finish_flush :: int
  no_flush :: int
  sync_flush :: int

definition zlib_namespace :: "('z, 'c) zlib \<Rightarrow> zlib_constants" where
  "zlib_namespace Z =
     \<lparr>no_compression = Z_NO_COMPRESSION Z, best_speed = Z_BEST_SPEED Z,
      best_compression = Z_BEST_COMPRESSION Z, default_compression = Z_DEFAULT_COMPRESSION Z,
      deflated = Z_DEFLATED Z,
      default_strategy = Z_DEFAULT_STRATEGY Z, filtered_strategy = Z_FILTERED Z, huffman_only = Z_HUFFMAN_ONLY Z,
      okay = Z_OK Z, stream_end = Z_STREAM_END Z, stream_error = Z_STREAM_ERROR Z,
      version_error = Z_VERSION_ERROR Z, data_error = Z_DATA_ERROR Z, mem_error = Z_MEM_ERROR Z,
      buf_error = Z_BUF_ERROR Z,
      finish_flush = Z_FINISH Z, no_flush = Z_NO_FLUSH Z, sync_flush = Z_SYNC_FLUSH Z\<rparr>"

subsection \<open>Operations\<close>

definition zlib_check :: "('z, 'c) zlib \<Rightarrow> int \<Rightarrow> zlib_failure option" where
  "zlib_check Z error =
     (if error = Z_OK Z \<or> error = Z_STREAM_END Z then None
      else if error = Z_MEM_ERROR Z then Some Bad_Alloc
      else Some (Zlib_Error error))"

definition new_zlib_base :: "('z, 'c) zlib \<Rightarrow> 'z z_stream \<Rightarrow> ('z, 'c) zlib_base" where
  "new_zlib_base Z s =
     \<lparr>zb_stream = s, zb_calculate_crc = False, zb_crc = crc32_init Z, zb_crc_imp = crc32_init Z,
      zb_total_in = 0, zb_total_out = 0\<rparr>"

definition before :: "nat \<Rightarrow> nat \<Rightarrow> nat \<Rightarrow> nat \<Rightarrow> ('z, 'c) zlib_base \<Rightarrow> ('z, 'c) zlib_base" where
  "before src_begin src_end dest_begin dest_end b =
     b\<lparr>zb_stream := (zb_stream b)
         \<lparr>next_in := src_begin, avail_in := of_nat (src_end - src_begin),
          next_out := dest_begin, avail_out := of_nat (dest_end - dest_begin)\<rparr>\<rparr>"

text \<open>\<open>after\<close> returns the new values of its two reference arguments.\<close>

definition after ::
    "('z, 'c) zlib \<Rightarrow> memory \<Rightarrow> nat \<Rightarrow> nat \<Rightarrow> bool \<Rightarrow> ('z, 'c) zlib_base
       \<Rightarrow> nat \<times> nat \<times> ('z, 'c) zlib_base" where
  "after Z mem src_begin dest_begin compress b =
     (let s = zb_stream b;
          b = (if zb_calculate_crc b
               then let buf = (if compress then src_begin else dest_begin);
                        len = (if compress then of_nat (next_in s - src_begin)
                               else of_nat (next_out s - dest_begin) :: u32);
                        c = crc32 Z (zb_crc_imp b) (bytes mem buf (unat len))
                    in b\<lparr>zb_crc_imp := c, zb_crc := c\<rparr>
               else b);
          b = b\<lparr>zb_total_in := total_in s, zb_total_out := total_out s\<rparr>
      in (next_in s, next_out s, b))"

definition xdeflate :: "('z, 'c) zlib \<Rightarrow> int \<Rightarrow> ('z, 'c) zlib_base \<times> memory \<Rightarrow> int \<times> ('z, 'c) zlib_base \<times> memory" where
  "xdeflate Z flush = (\<lambda>(b, mem). case z_deflate Z flush (zb_stream b, mem) of
     (r, s, mem') \<Rightarrow> (r, b\<lparr>zb_stream := s\<rparr>, mem'))"

definition xinflate :: "('z, 'c) zlib \<Rightarrow> int \<Rightarrow> ('z, 'c) zlib_base \<times> memory \<Rightarrow> int \<times> ('z, 'c) zlib_base \<times> memory" where
  "xinflate Z flush = (\<lambda>(b, mem). case z_inflate Z flush (zb_stream b, mem) of
     (r, s, mem') \<Rightarrow> (r, b\<lparr>zb_stream := s\<rparr>, mem'))"

text \<open>\<open>reset\<close> ignores the status zlib returns.\<close>

definition zlib_reset :: "('z, 'c) zlib \<Rightarrow> bool \<Rightarrow> bool \<Rightarrow> ('z, 'c) zlib_base \<Rightarrow> ('z, 'c) zlib_base" where
  "zlib_reset Z compress realloc b =
     b\<lparr>zb_stream :=
         (if realloc then if compress then deflateReset Z (zb_stream b) else inflateReset Z (zb_stream b)
          else if compress then deflateEnd Z (zb_stream b) else inflateEnd Z (zb_stream b)),
       zb_crc_imp := crc32_init Z\<rparr>"

definition do_init ::
    "('z, 'c) zlib \<Rightarrow> zlib_params \<Rightarrow> bool \<Rightarrow> nat \<Rightarrow> ('z, 'c) zlib_base
       \<Rightarrow> zlib_failure option \<times> ('z, 'c) zlib_base" where
  "do_init Z p compress derived b =
     (let b = b\<lparr>zb_calculate_crc := p_calculate_crc p\<rparr>;
          s = (zb_stream b)\<lparr>zalloc := 0, zfree := 0, opaque := derived\<rparr>;
          window_bits = (if p_noheader p then - p_window_bits p else p_window_bits p);
          (r, s) = (if compress
                    then deflateInit2 Z (p_level p) (p_method p) window_bits (p_mem_level p)
                           (p_strategy p) s
                    else inflateInit2 Z window_bits s)
      in (zlib_check Z r, b\<lparr>zb_stream := s\<rparr>))"

text \<open>
  \<open>compressData\<close> passes the numbers of \<open>CompressionLevel\<close> where zlib's levels are expected; with the
  values zlib.h documents they are the levels of the same names.
\<close>

definition level_values :: "('z, 'c) zlib \<Rightarrow> bool" where
  "level_values Z \<longleftrightarrow> Z_NO_COMPRESSION Z = 0 \<and> Z_BEST_SPEED Z = 1 \<and> Z_BEST_COMPRESSION Z = 9
     \<and> Z_DEFAULT_COMPRESSION Z = -1"

lemma compression_levels_agree:
  assumes "level_values Z" and "c = zlib_namespace Z"
  shows "compression_level_int NoCompression = no_compression c"
    "compression_level_int BestSpeed = best_speed c"
    "compression_level_int BestCompression = best_compression c"
    "compression_level_int DefaultCompression = default_compression c"
  using assms by (simp_all add: level_values_def zlib_namespace_def)

text \<open>
  The outcome of \<open>do_init\<close> by the status of zlib's initialisation, which is given the window
  size negated when no header is wanted: success, out of memory, or that status.
\<close>

lemma do_init_error:
  assumes "do_init Z p compress derived b = (e, b')" and "c = zlib_namespace Z"
    and "s = (zb_stream b)\<lparr>zalloc := 0, zfree := 0, opaque := derived\<rparr>"
    and "bits = (if p_noheader p then -1 else 1) * p_window_bits p"
    and "r = fst (if compress then deflateInit2 Z (p_level p) (p_method p) bits (p_mem_level p) (p_strategy p) s
                  else inflateInit2 Z bits s)"
    and "mem_error c \<noteq> okay c" "mem_error c \<noteq> stream_end c"
  shows "(e = None \<longleftrightarrow> r = okay c \<or> r = stream_end c) \<and> (e = Some Bad_Alloc \<longleftrightarrow> r = mem_error c)
    \<and> (\<forall>n. e = Some (Zlib_Error n) \<longrightarrow> n = r) \<and> zb_calculate_crc b' = p_calculate_crc p"
proof -
  have "e = zlib_check Z r" "zb_calculate_crc b' = p_calculate_crc p"
    using assms(1,3-5) by (auto simp: do_init_def Let_def split: prod.splits)
  then show ?thesis
    using assms(2,6,7) by (auto simp: zlib_check_def zlib_namespace_def split: if_splits)
qed

subsection \<open>A filter call\<close>

text \<open>
  How the operations are put together around a buffer: \<open>before\<close>, the zlib call, \<open>after\<close>. The
  laws are what zlib documents of \<open>deflate\<close> and \<open>inflate\<close>: at most the bytes offered are
  consumed and at most the room given is filled, and bytes outside the output room are not
  touched; a checksum can be continued where it was left.
\<close>

definition filter_call ::
    "('z, 'c) zlib \<Rightarrow> bool \<Rightarrow> int \<Rightarrow> nat \<Rightarrow> nat \<Rightarrow> nat \<Rightarrow> nat \<Rightarrow> ('z, 'c) zlib_base \<times> memory
       \<Rightarrow> nat \<times> nat \<times> ('z, 'c) zlib_base \<times> memory" where
  "filter_call Z compress flush src_begin src_end dest_begin dest_end = (\<lambda>(b, mem).
     let b = before src_begin src_end dest_begin dest_end b;
         (r, b, mem) = (if compress then xdeflate Z flush (b, mem) else xinflate Z flush (b, mem));
         (src, dest, b) = after Z mem src_begin dest_begin compress b
     in (src, dest, b, mem))"

definition moves_law :: "(int \<Rightarrow> 'z z_stream \<times> memory \<Rightarrow> int \<times> 'z z_stream \<times> memory) \<Rightarrow> bool" where
  "moves_law f \<longleftrightarrow> (\<forall>flush s mem r s' mem'. f flush (s, mem) = (r, s', mem') \<longrightarrow>
     next_in s \<le> next_in s' \<and> next_in s' \<le> next_in s + unat (avail_in s)
     \<and> next_out s \<le> next_out s' \<and> next_out s' \<le> next_out s + unat (avail_out s)
     \<and> (\<forall>a. a < next_out s \<or> next_out s + unat (avail_out s) \<le> a \<longrightarrow> mem' a = mem a))"

definition zlib_laws :: "('z, 'c) zlib \<Rightarrow> bool" where
  "zlib_laws Z \<longleftrightarrow> moves_law (z_deflate Z) \<and> moves_law (z_inflate Z)
     \<and> (\<forall>c xs ys. crc32 Z c (xs @ ys) = crc32 Z (crc32 Z c xs) ys)
     \<and> (\<forall>c. crc32 Z c [] = c)"

text \<open>The bytes a call put through: those consumed when compressing, those produced otherwise.\<close>

definition through :: "bool \<Rightarrow> nat \<Rightarrow> nat \<Rightarrow> nat \<times> nat \<times> ('z, 'c) zlib_base \<times> memory \<Rightarrow> u8 list" where
  "through compress src dest = (\<lambda>(src', dest', b, mem).
     if compress then bytes mem src (src' - src) else bytes mem dest (dest' - dest))"

lemma unat_of_nat_le: "unat (of_nat n :: u32) \<le> n"
  by (simp add: unsigned_of_nat take_bit_nat_less_eq_self)

lemma unat_of_nat_small: "n \<le> unat (m :: u32) \<Longrightarrow> unat (of_nat n :: u32) = n"
  using unsigned_less [of m, where ?'a = nat] by (simp add: unsigned_of_nat take_bit_nat_eq_self)

lemma filter_call_bounds:
  assumes laws: "zlib_laws Z"
    and call: "filter_call Z compress flush src src_end dest dest_end (b, mem) = (src', dest', b', mem')"
  shows "src \<le> src' \<and> src' \<le> src + (src_end - src) \<and> dest \<le> dest' \<and> dest' \<le> dest + (dest_end - dest)
    \<and> (\<forall>a. a < dest \<or> dest + (dest_end - dest) \<le> a \<longrightarrow> mem' a = mem a)
    \<and> zb_calculate_crc b' = zb_calculate_crc b
    \<and> (zb_calculate_crc b \<longrightarrow> zb_crc b' = zb_crc_imp b'
         \<and> zb_crc_imp b' = crc32 Z (zb_crc_imp b) (through compress src dest (src', dest', b', mem')))"
proof -
  let ?s = "zb_stream (before src src_end dest dest_end b)"
  let ?f = "if compress then z_deflate Z else z_inflate Z"
  obtain r s m where f: "?f flush (?s, mem) = (r, s, m)" by (cases "?f flush (?s, mem)") auto
  have "moves_law ?f" using laws by (simp add: zlib_laws_def)
  with f have mv: "next_in ?s \<le> next_in s" "next_in s \<le> next_in ?s + unat (avail_in ?s)"
    "next_out ?s \<le> next_out s" "next_out s \<le> next_out ?s + unat (avail_out ?s)"
    "\<forall>a. a < next_out ?s \<or> next_out ?s + unat (avail_out ?s) \<le> a \<longrightarrow> m a = mem a"
    unfolding moves_law_def by blast+
  have s: "next_in ?s = src" "avail_in ?s = of_nat (src_end - src)" "next_out ?s = dest"
    "avail_out ?s = of_nat (dest_end - dest)" by (simp_all add: before_def)
  have len: "unat (of_nat (next_in s - src) :: u32) = next_in s - src"
    "unat (of_nat (next_out s - dest) :: u32) = next_out s - dest"
    by (rule unat_of_nat_small [where m = "avail_in ?s"], use mv s in linarith)
      (rule unat_of_nat_small [where m = "avail_out ?s"], use mv s in linarith)
  have res: "src' = next_in s" "dest' = next_out s" "mem' = m"
    "(src', dest', b') = after Z m src dest compress ((before src src_end dest dest_end b)\<lparr>zb_stream := s\<rparr>)"
    using call f by (auto simp: filter_call_def xdeflate_def xinflate_def Let_def after_def
        split: if_splits prod.splits)
  have "src' \<le> src + (src_end - src)" "dest' \<le> dest + (dest_end - dest)"
    using mv s res unat_of_nat_le le_trans by (metis nat_add_left_cancel_le)+
  moreover have "mem' a = mem a" if "a < dest \<or> dest + (dest_end - dest) \<le> a" for a
    using mv(5) that unat_of_nat_le [of "dest_end - dest"] unfolding res(3) s by auto
  ultimately show ?thesis
    using mv s res(4) len unfolding res(1-3)
    by (auto simp: after_def before_def through_def Let_def simp del: of_nat_diff split: if_splits)
qed

subsection \<open>Properties\<close>

text \<open>Successive calls on buffers given by the caller, with the bytes put through by each.\<close>

type_synonym buffers = "int \<times> nat \<times> nat \<times> nat \<times> nat"

fun filter_calls ::
    "('z, 'c) zlib \<Rightarrow> bool \<Rightarrow> buffers list \<Rightarrow> ('z, 'c) zlib_base \<times> memory
       \<Rightarrow> u8 list list \<times> ('z, 'c) zlib_base \<times> memory" where
  "filter_calls Z compress [] bm = ([], bm)"
| "filter_calls Z compress ((flush, src, src_end, dest, dest_end) # calls) bm =
     (case filter_call Z compress flush src src_end dest dest_end bm of
        (src', dest', bm') \<Rightarrow>
          (case filter_calls Z compress calls bm' of
             (outs, bm'') \<Rightarrow> (through compress src dest (src', dest', bm') # outs, bm'')))"

lemma filter_calls_crc:
  assumes laws: "zlib_laws Z" and "zb_calculate_crc b"
    and "filter_calls Z compress calls (b, mem) = (outs, b', mem')"
  shows "zb_crc_imp b' = crc32 Z (zb_crc_imp b) (concat outs) \<and> length outs = length calls
    \<and> (calls \<noteq> [] \<longrightarrow> zb_crc b' = zb_crc_imp b')"
  using assms(2-)
proof (induction calls arbitrary: b mem outs b' mem')
  case Nil
  with laws show ?case by (simp add: zlib_laws_def)
next
  case (Cons call calls)
  obtain flush src src_end dest dest_end where call: "call = (flush, src, src_end, dest, dest_end)"
    by (cases call)
  obtain src' dest' b1 m1 where one:
    "filter_call Z compress flush src src_end dest dest_end (b, mem) = (src', dest', b1, m1)"
    by (cases "filter_call Z compress flush src src_end dest dest_end (b, mem)") auto
  obtain outs1 where rest: "filter_calls Z compress calls (b1, m1) = (outs1, b', mem')"
    and outs: "outs = through compress src dest (src', dest', b1, m1) # outs1"
    using Cons.prems one by (auto simp: call split: prod.splits)
  note first = filter_call_bounds [OF laws one]
  with Cons.prems Cons.IH [OF _ rest] have IH: "zb_crc_imp b' = crc32 Z (zb_crc_imp b1) (concat outs1)"
    "length outs1 = length calls" "calls \<noteq> [] \<longrightarrow> zb_crc b' = zb_crc_imp b'" by auto
  moreover have "zb_crc b' = zb_crc_imp b'"
  proof (cases "calls = []")
    case True
    with rest first Cons.prems show ?thesis by simp
  qed (use IH in simp)
  ultimately show ?case using first Cons.prems laws outs by (simp add: zlib_laws_def)
qed

text \<open>A zlib that copies, for the witnesses; its checksum is the sum of the bytes.\<close>

definition ref_copy :: "int \<Rightarrow> unit z_stream \<times> memory \<Rightarrow> int \<times> unit z_stream \<times> memory" where
  "ref_copy flush = (\<lambda>(s, mem). let n = min (unat (avail_in s)) (unat (avail_out s)) in
     (0, s\<lparr>next_in := next_in s + n, next_out := next_out s + n\<rparr>,
      \<lambda>a. if next_out s \<le> a \<and> a < next_out s + n then mem (next_in s + (a - next_out s)) else mem a))"

definition ref_zlib :: "(unit, u8) zlib" where
  "ref_zlib = \<lparr>Z_NO_COMPRESSION = 0, Z_BEST_SPEED = 1, Z_BEST_COMPRESSION = 9, Z_DEFAULT_COMPRESSION = -1,
     Z_DEFLATED = 8, Z_DEFAULT_STRATEGY = 0, Z_FILTERED = 1, Z_HUFFMAN_ONLY = 2,
     Z_OK = 0, Z_STREAM_END = 1, Z_STREAM_ERROR = -2, Z_VERSION_ERROR = -6, Z_DATA_ERROR = -3,
     Z_MEM_ERROR = -4, Z_BUF_ERROR = -5, Z_FINISH = 4, Z_NO_FLUSH = 0, Z_SYNC_FLUSH = 2, z_deflate = ref_copy,
     z_inflate = ref_copy, deflateReset = id, inflateReset = id, deflateEnd = id, inflateEnd = id,
     deflateInit2 = (\<lambda>l m w k t s. (0, s)), inflateInit2 = (\<lambda>w s. (0, s)),
     crc32_init = 0, crc32 = (\<lambda>c xs. c + sum_list xs)\<rparr>"

lemma ref_zlib_laws: "zlib_laws ref_zlib"
  by (simp add: zlib_laws_def ref_zlib_def moves_law_def ref_copy_def Let_def add.assoc)
    (auto simp: min_def)

definition ref_base :: "(unit, u8) zlib_base" where
  "ref_base = (new_zlib_base ref_zlib
     \<lparr>next_in = 0, avail_in = 0, total_in = 0, next_out = 0, avail_out = 0, total_out = 0,
      zalloc = 9, zfree = 9, opaque = 9, z_internal = ()\<rparr>)\<lparr>zb_calculate_crc := True, zb_crc := 5, zb_crc_imp := 5\<rparr>"

text \<open>
  C30. The checksum \<open>zlib_base\<close> keeps is that of the whole stream: after \<open>reset\<close>, any sequence of
  \<open>before\<close>, zlib call, \<open>after\<close> on buffers of any size leaves in \<open>crc_\<close> the checksum of the
  concatenation of the bytes put through, although each call computes it only over its own
  piece and through a 32-bit length. \<open>reset\<close> itself keeps the published checksum.
\<close>

theorem zlib_stream_crc:
  assumes "zlib_laws Z" and "zb_calculate_crc b" and "calls \<noteq> []"
    and "filter_calls Z compress calls (zlib_reset Z compress realloc b, mem) = (outs, b', mem')"
  shows "zb_crc b' = crc32 Z (crc32_init Z) (concat outs) \<and> length outs = length calls
    \<and> zb_crc (zlib_reset Z compress realloc b) = zb_crc b"
proof -
  have "zb_calculate_crc (zlib_reset Z compress realloc b)" using assms(2) by (simp add: zlib_reset_def)
  from filter_calls_crc [OF assms(1) this assms(4)] assms(3) show ?thesis
    by (simp add: zlib_reset_def)
qed

theorem zlib_stream_crc_witness:
  "\<exists>outs b' mem'. filter_calls ref_zlib True [(0, 10, 13, 50, 52), (0, 12, 13, 52, 60)]
       (zlib_reset ref_zlib True True ref_base, of_nat) = (outs, b', mem')
     \<and> length outs = 2 \<and> zb_crc b' = sum_list (concat outs)"
proof -
  let ?calls = "[(0, 10, 13, 50, 52), (0, 12, 13, 52, 60)] :: buffers list"
  obtain outs b' mem' where
    "filter_calls ref_zlib True ?calls (zlib_reset ref_zlib True True ref_base, of_nat) = (outs, b', mem')"
    by (cases "filter_calls ref_zlib True ?calls (zlib_reset ref_zlib True True ref_base, of_nat)") auto
  moreover from this zlib_stream_crc [OF ref_zlib_laws _ _ this] have
    "length outs = 2 \<and> zb_crc b' = sum_list (concat outs)"
    by (simp add: ref_base_def ref_zlib_def)
  ultimately show ?thesis by blast
qed



end
