(* ===== verification/Zlib_Object.thy ===== *)
theory Zlib_Object
  imports Zlib
begin

section \<open>zlib filter objects and their streams\<close>

text \<open>
  \<open>Zlib\<close> keeps the \<open>z_stream\<close> inside the filter base. In the code it is an object of its own:
  the constructor allocates it (\<open>new z_stream\<close>), every method goes through the pointer \<open>stream_\<close>,
  and the destructor deletes it. Here filter objects hold a pointer into a heap of streams;
  following a pointer to no stream is \<open>None\<close>. The objects refine those of \<open>Zlib\<close>.
\<close>

subsection \<open>Objects and operations\<close>

record 'c zlib_fields =
  zf_stream :: nat
  zf_calculate_crc :: bool
  zf_crc :: 'c
  zf_crc_imp :: 'c
  zf_total_in :: u64
  zf_total_out :: u64

record ('z, 'c) zlib_world =
  zw_streams :: "nat \<rightharpoonup> 'z z_stream"
  zw_next :: nat
  zw_objects :: "nat \<rightharpoonup> 'c zlib_fields"

text \<open>A filter base as its methods see it, through the pointer, and the fields they leave.\<close>

definition base_of :: "'z z_stream \<Rightarrow> 'c zlib_fields \<Rightarrow> ('z, 'c) zlib_base" where
  "base_of s f = \<lparr>zb_stream = s, zb_calculate_crc = zf_calculate_crc f, zb_crc = zf_crc f,
     zb_crc_imp = zf_crc_imp f, zb_total_in = zf_total_in f, zb_total_out = zf_total_out f\<rparr>"

definition fields_of :: "nat \<Rightarrow> ('z, 'c) zlib_base \<Rightarrow> 'c zlib_fields" where
  "fields_of p b = \<lparr>zf_stream = p, zf_calculate_crc = zb_calculate_crc b, zf_crc = zb_crc b,
     zf_crc_imp = zb_crc_imp b, zf_total_in = zb_total_in b, zf_total_out = zb_total_out b\<rparr>"

definition load_base :: "('z, 'c) zlib_world \<Rightarrow> nat \<Rightarrow> ('z, 'c) zlib_base option" where
  "load_base w i =
     (case zw_objects w i of None \<Rightarrow> None
      | Some f \<Rightarrow> map_option (\<lambda>s. base_of s f) (zw_streams w (zf_stream f)))"

text \<open>The constructor; \<open>s\<close> is what the new stream holds, which nothing initialises.\<close>

definition construct_zlib_base ::
    "('z, 'c) zlib \<Rightarrow> 'z z_stream \<Rightarrow> nat \<Rightarrow> ('z, 'c) zlib_world \<Rightarrow> ('z, 'c) zlib_world" where
  "construct_zlib_base Z s i w =
     w\<lparr>zw_streams := (zw_streams w)(zw_next w \<mapsto> s), zw_next := zw_next w + 1,
       zw_objects := (zw_objects w)(i \<mapsto> fields_of (zw_next w) (new_zlib_base Z s))\<rparr>"

text \<open>A method of the object \<open>i\<close> whose effect on the filter base is \<open>m\<close>.\<close>

definition call_method ::
    "(('z, 'c) zlib_base \<Rightarrow> ('z, 'c) zlib_base) \<Rightarrow> nat \<Rightarrow> ('z, 'c) zlib_world \<Rightarrow> ('z, 'c) zlib_world option" where
  "call_method m i w =
     (case zw_objects w i of None \<Rightarrow> None
      | Some f \<Rightarrow>
          (case zw_streams w (zf_stream f) of None \<Rightarrow> None
           | Some s \<Rightarrow>
               (let b = m (base_of s f) in
                Some (w\<lparr>zw_streams := (zw_streams w)(zf_stream f \<mapsto> zb_stream b),
                        zw_objects := (zw_objects w)(i \<mapsto> fields_of (zf_stream f) b)\<rparr>))))"

text \<open>The destructor: \<open>delete stream_\<close>, and the object is gone.\<close>

definition delete_zlib_base :: "nat \<Rightarrow> ('z, 'c) zlib_world \<Rightarrow> ('z, 'c) zlib_world option" where
  "delete_zlib_base i w =
     (case zw_objects w i of None \<Rightarrow> None
      | Some f \<Rightarrow>
          (case zw_streams w (zf_stream f) of None \<Rightarrow> None
           | Some s \<Rightarrow> Some (w\<lparr>zw_streams := (zw_streams w)(zf_stream f := None),
                               zw_objects := (zw_objects w)(i := None)\<rparr>)))"

text \<open>The effects of the methods, whatever their arguments and the caller's memory.\<close>

inductive base_method :: "('z, 'c) zlib \<Rightarrow> (('z, 'c) zlib_base \<Rightarrow> ('z, 'c) zlib_base) \<Rightarrow> bool"
  for Z :: "('z, 'c) zlib" where
  method_before: "base_method Z (before src_begin src_end dest_begin dest_end)"
| method_after: "base_method Z (\<lambda>b. snd (snd (after Z mem src_begin dest_begin compress b)))"
| method_xdeflate: "base_method Z (\<lambda>b. fst (snd (xdeflate Z flush (b, mem))))"
| method_xinflate: "base_method Z (\<lambda>b. fst (snd (xinflate Z flush (b, mem))))"
| method_reset: "base_method Z (zlib_reset Z compress realloc)"
| method_do_init: "base_method Z (\<lambda>b. snd (do_init Z p compress derived b))"

inductive object_step :: "('z, 'c) zlib \<Rightarrow> ('z, 'c) zlib_world \<Rightarrow> ('z, 'c) zlib_world \<Rightarrow> bool"
  for Z :: "('z, 'c) zlib" where
  object_made: "zw_objects w i = None \<Longrightarrow> object_step Z w (construct_zlib_base Z s i w)"
| object_used: "base_method Z m \<Longrightarrow> call_method m i w = Some w' \<Longrightarrow> object_step Z w w'"
| object_gone: "delete_zlib_base i w = Some w' \<Longrightarrow> object_step Z w w'"

definition object_start :: "('z, 'c) zlib_world \<Rightarrow> bool" where
  "object_start w \<longleftrightarrow> zw_objects w = Map.empty \<and> zw_streams w = Map.empty"

text \<open>The same with the filter bases of \<open>Zlib\<close>, which hold their streams.\<close>

inductive value_step ::
    "('z, 'c) zlib \<Rightarrow> (nat \<rightharpoonup> ('z, 'c) zlib_base) \<Rightarrow> (nat \<rightharpoonup> ('z, 'c) zlib_base) \<Rightarrow> bool"
  for Z :: "('z, 'c) zlib" where
  value_made: "v i = None \<Longrightarrow> value_step Z v (v(i \<mapsto> new_zlib_base Z s))"
| value_used: "base_method Z m \<Longrightarrow> v i = Some b \<Longrightarrow> value_step Z v (v(i \<mapsto> m b))"
| value_gone: "v i \<noteq> None \<Longrightarrow> value_step Z v (v(i := None))"

subsection \<open>Invariant and refinement\<close>

lemma base_of_fields [simp]: "base_of (zb_stream b) (fields_of p b) = b" "zf_stream (fields_of p b) = p"
  by (simp_all add: base_of_def fields_of_def)

text \<open>Every object has a stream of its own, and every stream an object.\<close>

definition pointers :: "('z, 'c) zlib_world \<Rightarrow> nat \<rightharpoonup> nat" where
  "pointers w i = map_option zf_stream (zw_objects w i)"

definition object_inv :: "('z, 'c) zlib_world \<Rightarrow> bool" where
  "object_inv w \<longleftrightarrow> dom (zw_streams w) \<subseteq> {..<zw_next w} \<and> ran (pointers w) = dom (zw_streams w)
     \<and> inj_on (pointers w) (dom (pointers w))"

lemma object_invD:
  assumes "object_inv w" and "zw_objects w i = Some f"
  shows "\<exists>s. zw_streams w (zf_stream f) = Some s"
    and "zw_objects w j = Some g \<Longrightarrow> j \<noteq> i \<Longrightarrow> zf_stream g \<noteq> zf_stream f"
proof -
  have f: "pointers w i = Some (zf_stream f)" using assms(2) by (simp add: pointers_def)
  then show "\<exists>s. zw_streams w (zf_stream f) = Some s"
    using assms(1) by (auto simp: object_inv_def intro: ranI)
  assume "zw_objects w j = Some g" "j \<noteq> i"
  then show "zf_stream g \<noteq> zf_stream f"
    using f assms(1) by (auto simp: object_inv_def pointers_def inj_on_def dom_def)
qed

lemma construct_sim:
  assumes inv: "object_inv w" and new: "zw_objects w i = None"
  shows "object_inv (construct_zlib_base Z s i w)"
    "load_base (construct_zlib_base Z s i w) = (load_base w)(i \<mapsto> new_zlib_base Z s)"
proof -
  have fresh: "zw_next w \<notin> ran (pointers w)" using inv by (auto simp: object_inv_def)
  then have ptr: "zf_stream f \<noteq> zw_next w" if "zw_objects w j = Some f" for j f
    using that by (auto simp: pointers_def ran_def)
  have stream: "zb_stream (new_zlib_base Z s) = s" by (simp add: new_zlib_base_def)
  show "load_base (construct_zlib_base Z s i w) = (load_base w)(i \<mapsto> new_zlib_base Z s)"
    using ptr base_of_fields(1) [of "new_zlib_base Z s" "zw_next w"]
    by (auto simp: load_base_def construct_zlib_base_def fun_eq_iff stream split: option.splits)
  have none: "pointers w i = None" using new by (simp add: pointers_def)
  have "pointers (construct_zlib_base Z s i w) = (pointers w)(i \<mapsto> zw_next w)"
    by (simp add: pointers_def construct_zlib_base_def fun_eq_iff)
  moreover have "inj_on ((pointers w)(i \<mapsto> zw_next w)) (insert i (dom (pointers w)))"
  proof (rule inj_onI)
    fix j k assume "j \<in> insert i (dom (pointers w))" "k \<in> insert i (dom (pointers w))"
      "((pointers w)(i \<mapsto> zw_next w)) j = ((pointers w)(i \<mapsto> zw_next w)) k"
    moreover have "pointers w l \<noteq> Some (zw_next w)" for l using fresh by (auto intro: ranI)
    ultimately show "j = k"
      using inv by (auto simp: object_inv_def inj_on_def split: if_splits)
  qed
  ultimately show "object_inv (construct_zlib_base Z s i w)"
    using inv none by (auto simp: object_inv_def construct_zlib_base_def)
qed

lemma call_sim:
  assumes inv: "object_inv w" and b: "load_base w i = Some b"
  shows "\<exists>w'. call_method m i w = Some w' \<and> object_inv w' \<and> load_base w' = (load_base w)(i \<mapsto> m b)"
proof -
  obtain f s where f: "zw_objects w i = Some f" and s: "zw_streams w (zf_stream f) = Some s"
    and b': "b = base_of s f"
    using b by (auto simp: load_base_def split: option.splits)
  let ?w' = "w\<lparr>zw_streams := (zw_streams w)(zf_stream f \<mapsto> zb_stream (m b)),
      zw_objects := (zw_objects w)(i \<mapsto> fields_of (zf_stream f) (m b))\<rparr>"
  have "load_base ?w' = (load_base w)(i \<mapsto> m b)"
    using object_invD(2) [OF inv f]
    by (auto simp: load_base_def fun_eq_iff split: option.splits)
  moreover have "pointers ?w' = pointers w" "dom (zw_streams ?w') = dom (zw_streams w)"
    using f s by (auto simp: pointers_def fun_eq_iff)
  then have "object_inv ?w'" using inv by (simp add: object_inv_def)
  moreover have "call_method m i w = Some ?w'" by (simp add: call_method_def f s b' Let_def)
  ultimately show ?thesis by blast
qed

lemma delete_sim:
  assumes inv: "object_inv w" and b: "load_base w i = Some b"
  shows "\<exists>w'. delete_zlib_base i w = Some w' \<and> object_inv w' \<and> load_base w' = (load_base w)(i := None)"
proof -
  obtain f s where f: "zw_objects w i = Some f" and s: "zw_streams w (zf_stream f) = Some s"
    using b by (auto simp: load_base_def split: option.splits)
  let ?w' = "w\<lparr>zw_streams := (zw_streams w)(zf_stream f := None), zw_objects := (zw_objects w)(i := None)\<rparr>"
  have "load_base ?w' = (load_base w)(i := None)"
    using object_invD(2) [OF inv f] by (auto simp: load_base_def fun_eq_iff split: option.splits)
  moreover have ptr: "pointers ?w' = (pointers w)(i := None)" "pointers w i = Some (zf_stream f)"
    using f by (auto simp: pointers_def fun_eq_iff)
  moreover have "ran ((pointers w)(i := None)) = ran (pointers w) - {zf_stream f}"
    using inv ptr(2) by (force simp: object_inv_def ran_def inj_on_def dom_def)
  ultimately have "object_inv ?w'" "load_base ?w' = (load_base w)(i := None)"
    using inv by (auto simp: object_inv_def inj_on_def)
  moreover have "delete_zlib_base i w = Some ?w'" by (simp add: delete_zlib_base_def f s)
  ultimately show ?thesis by blast
qed

lemma load_base_Some: "object_inv w \<Longrightarrow> load_base w i = None \<longleftrightarrow> zw_objects w i = None"
  using object_invD(1) [of w i] by (force simp: load_base_def split: option.splits)

lemma call_method_Some: "call_method m i w = Some w' \<Longrightarrow> load_base w i \<noteq> None"
  by (auto simp: call_method_def load_base_def split: option.splits)

lemma delete_zlib_base_Some: "delete_zlib_base i w = Some w' \<Longrightarrow> load_base w i \<noteq> None"
  by (auto simp: delete_zlib_base_def load_base_def split: option.splits)

lemma object_step_sim:
  assumes inv: "object_inv w" and step: "object_step Z w w'"
  shows "object_inv w' \<and> value_step Z (load_base w) (load_base w')"
  using step
proof cases
  case (object_made i s)
  then show ?thesis
    using construct_sim [OF inv] load_base_Some [OF inv] by (simp add: value_step.value_made)
next
  case (object_used m i)
  then obtain b where b: "load_base w i = Some b" using call_method_Some by fastforce
  with call_sim [OF inv b, of m] object_used show ?thesis by (auto intro: value_step.value_used)
next
  case (object_gone i)
  then obtain b where b: "load_base w i = Some b" using delete_zlib_base_Some by fastforce
  with delete_sim [OF inv b] object_gone show ?thesis by (auto intro: value_step.value_gone)
qed

interpretation objects: refinement_system object_start "object_step Z" object_inv
    "\<lambda>v. v = Map.empty" "value_step Z" load_base
  for Z :: "('z, 'c) zlib"
proof
  fix w :: "('z, 'c) zlib_world" assume "object_start w"
  then show "object_inv w" "load_base w = Map.empty"
    by (simp_all add: object_start_def object_inv_def pointers_def [abs_def] load_base_def [abs_def])
qed (use object_step_sim in blast)+

text \<open>
  Filter objects made, used and destroyed in any order behave as the filter bases that hold
  their streams: no method follows a bad pointer, none changes another object, a destructor
  never deletes a stream twice, and when all objects are gone no stream is left.
\<close>

theorem zlib_objects_safe:
  assumes "reach object_start (object_step Z) w"
  shows "reach (\<lambda>v. v = Map.empty) (value_step Z) (load_base w)
    \<and> dom (load_base w) = dom (zw_objects w)
    \<and> (\<forall>m i b. load_base w i = Some b \<longrightarrow>
         (\<exists>w'. call_method m i w = Some w' \<and> load_base w' = (load_base w)(i \<mapsto> m b))
         \<and> (\<exists>w'. delete_zlib_base i w = Some w' \<and> load_base w' = (load_base w)(i := None)))
    \<and> (zw_objects w = Map.empty \<longrightarrow> zw_streams w = Map.empty)"
proof -
  have inv: "object_inv w" by (rule objects.reach_inv [OF assms])
  have "zw_streams w = Map.empty" if "zw_objects w = Map.empty"
    using inv that by (auto simp: object_inv_def pointers_def [abs_def])
  moreover have "dom (load_base w) = dom (zw_objects w)" using load_base_Some [OF inv] by (auto simp: dom_def)
  ultimately show ?thesis
    using objects.reach_abs [OF assms] call_sim [OF inv] delete_sim [OF inv] by blast
qed

end
