(* ===== verification/Spec2Isabelle.thy ===== *)
theory Spec2Isabelle
  imports Http_Router_Props Http_Session_Wire Http_Session_Exchange Http_Server_Owner Http_Process Http_Server_Log Http_Concurrency Http_Writer
    Http_Snapshot Http_Threads Http_Server Gzip Zlib_Object
begin

text \<open>
  Verification of httpserver-cpp, an HTTP server library on Boost.Beast.

  \<^bold>\<open>The program.\<close> A program creates an \<open>HttpServer\<close> (src/src/http_server.cpp), registers
  handlers under paths, and runs it. \<open>HttpServerImpl\<close> (src/src/http_server_impl.cpp) owns
  the options, the router, the acceptor, the thread pool and the statistics; each accepted
  connection becomes an \<open>HttpSession\<close> (src/src/http_session.cpp), which reads a request,
  looks the path up in the \<open>HttpRouter\<close> (src/src/http_router.h), builds an \<open>HttpRequest\<close> for
  the handler, and writes the \<open>HttpResponse\<close> the handler sends through its
  \<open>HttpResponseWriter\<close>; then it reads the next request or closes. Logging
  (src/src/http_log.cpp) wraps spdlog; src/src/gzip.cpp and src/src/zlib.cpp are the
  compiled parts of Boost.Iostreams the response compression is built with.

  \<^bold>\<open>The theories.\<close>

  \<^item> \<open>Http_Prelude\<close>: the machine words, the string operations of the standard library the
    code uses, counters, reachable states, the locale \<open>invariant_system\<close> and its extension
    \<open>refinement_system\<close> by an abstraction under which every step is an abstract one or none.
  \<^item> \<open>Std_Containers\<close>: \<open>std::map\<close> and \<open>std::unordered_map\<close> as association lists, with the locale
    \<open>map_container\<close> of their laws and its two interpretations.
  \<^item> \<open>Http_Router\<close>: the path tree on an explicit heap of nodes (\<open>HttpPathNode\<close>, \<open>insert\<close>,
    both \<open>search\<close> overloads, both destructors); the abstract routing table and the locale
    \<open>routing\<close>, in which what a client may rely on is proved from the provider's laws.
  \<^item> \<open>Http_Router_Refine\<close>: the heap invariant \<open>router_wf\<close> (a tree), the abstraction \<open>table_of\<close>,
    the refinement of every operation, and the interpretation of \<open>routing\<close>.
  \<^item> \<open>Http_Router_Props\<close>: C1 to C7 and C39.
  \<^item> \<open>Http_Types\<close>, \<open>Http_Message\<close>: options, statistics, enumerations (http_types.h,
    http_statistics_internal.h), requests with their getters, responses with their chained
    setters; when two chains of setters build the same response, C40.
  \<^item> \<open>Boost_Interface\<close>: Boost as a record of functions the session takes as an argument, and
    the documented behaviour as predicates on it; \<open>Boost_Reference\<close>: an executable instance
    that satisfies them, used by the witnesses only.
  \<^item> \<open>Http_Session\<close>: the session record and every method of \<open>HttpSession\<close>.
  \<^item> \<open>Http_Session_Response\<close>: what \<open>writeResponse\<close> puts on the wire, C8 and C9.
  \<^item> \<open>Http_Session_Steps\<close>: \<open>processRequest\<close> on every branch and the session as a step relation
    with its invariant, C12 to C16.
  \<^item> \<open>Http_Session_Wire\<close>: the shape of every message handed to the network, C38.
  \<^item> \<open>Http_Session_Exchange\<close>: the session with the history of its connection; requests are answered
    in order, each by a response built for it, C10.
  \<^item> \<open>Http_Server_Impl\<close>: \<open>HttpServerImpl\<close> and the step relation of the whole server (accepts and
    the steps of all its sessions, in any interleaving).
  \<^item> \<open>Http_Server_Core\<close>: what every event keeps of sessions and counters, whatever runs came
    before.
  \<^item> \<open>Http_Server_Props\<close>: starting, failing to start, the statistics in every reachable
    state, stopping and restarting, C17, C19 and C20.
  \<^item> \<open>Http_Server_Life\<close>: the server object over any sequence of registrations, runs, failed
    runs, stops and events, C35.
  \<^item> \<open>Http_Server_Owner\<close>: the \<open>HttpServer\<close> objects and the outstanding accepts that share the
    implementation, and both destructors; when the implementation is destroyed, C21.
  \<^item> \<open>Http_Process\<close>: several servers in one process, which share the static session counter; when
    session numbers are unique, C26.
  \<^item> \<open>Http_Threads\<close>: the thread pool as thread objects and \<open>stop\<close> called on any thread, C18.
  \<^item> \<open>Http_Server_Log\<close>: every line the session, the server and the router log, on every branch, and
    what of it reaches spdlog; the log accounts for the statistics, C11.
  \<^item> \<open>Http_Snapshot\<close>: the methods of the session as sequences of single counter operations,
    interleaved with the single loads of \<open>getHttpStatistics\<close>; the snapshot never shows more
    handled requests than read ones, C23.
  \<^item> \<open>Http_Strand\<close>: \<open>processRequest\<close> split at the call of \<open>handle\<close>: the steps of the sessions' strands
    while handlers run on other threads and return.
  \<^item> \<open>Http_Concurrency\<close>: these steps with the sends and drops of handlers; they refine the atomic
    events of \<open>Http_Server_Impl\<close> (C36), and the statistics are exact while handlers run (C37).
  \<^item> \<open>Http_Writer\<close>: the same steps with \<open>HttpResponseWriter\<close> objects that handlers copy, send
    through and destroy in any order; the session outlives them all, C22.
  \<^item> \<open>Http_Log\<close>: C24 and C25; \<open>Gzip\<close>: C27 to C29; \<open>Zlib\<close>: C30 and C31.
  \<^item> \<open>Zlib_Object\<close>: filter objects with a pointer to a stream of their own, from constructor to
    destructor; they refine the filter bases of \<open>Zlib\<close>, and no stream is leaked, shared or
    deleted twice (\<open>zlib_objects_safe\<close>).
  \<^item> \<open>Http_Server\<close>: the public class and the demo program (demo/main.cpp).
  \<^item> This theory: from registration to answer through all components (C32), the need for
    handlers that answer once (C33), the demo program (C34).

  \<^bold>\<open>State and effects.\<close> Every method is a function on explicit state. An asynchronous
  operation is an entry in the session's list of outstanding operations; its completion is
  a step that removes the entry and runs the completion handler. Completion handlers are
  steps of their own: a session's handlers run on its strand, and sessions share only the
  router, which is not changed while the server runs, and the atomic counters, whose
  increments are single steps. The one part of a completion handler that takes long, the
  call of \<open>handle\<close>, is also modelled as two steps with others in between, and C36 shows
  that the atomic view loses nothing; where the order of single counter operations matters,
  for \<open>getHttpStatistics\<close>, they are steps of their own (C23). Shared ownership, of sessions by
  operations and writers and of the server by its accepts, is counted, and a destructor
  runs when the last owner goes. Log lines are values beside the methods that log them. Handlers are a parameter: a function from requests to the
  responses sent at once and whether the writer is kept for later; later sends are steps. Handlers
  return: \<open>handle\<close> is \<open>noexcept\<close>, so one that throws ends the program. An outstanding
  operation that runs into its timer completes with \<open>error::timeout\<close> on a socket that the
  stream has closed already (\<open>read_world\<close> and \<open>write_world\<close> in \<open>Http_Session_Steps\<close>).
  Exceptions, null data and bad pointers are values (\<open>Inl\<close>, \<open>None\<close>). Counters and session
  numbers are words of the declared width, so wrap-around is part of the model.

  \<^bold>\<open>Loops and bounds.\<close> The loops are structural recursions over segments, header fields and
  responses; the thread loop of \<open>run\<close> is a recursion on 32-bit words with a proved measure.
  The recursive destructor of the tree is given the number of addresses in use as depth
  bound; C7 shows that this is always enough.

  \<^bold>\<open>Not modelled.\<close> Boost, spdlog and zlib are parameters, and hypotheses about them are named
  predicates stating documented behaviour. The failure of memory allocation or thread
  creation is left out. The outstanding write carries its message by value, while the code hands
  \<open>async_write\<close> a reference to \<open>response_\<close>; they differ only after a second \<open>send\<close> (C33), where the
  bytes the first write then sends are not modelled. \<open>BOOST_ASSERT\<close> is modelled as enabled. The destructors of \<open>HttpRequest\<close>, \<open>HttpResponse\<close> and \<open>APIHandler\<close> are empty.
  The includes of http_common.h have no behaviour. The tests, the build files and the
  documentation are not modelled.

  \<^bold>\<open>What modelling showed.\<close> The search returns the data of the deepest node on the path, not of
  the longest registered path (C6). Registering a path whose first segment is empty, like
  \<open>//x\<close>, replaces the handler of \<open>/\<close>, and a search for that path finds nothing (C39). A response with an empty body has no Content-Length
  (\<open>empty_body_without_length\<close>), and the answer to HEAD announces length zero (\<open>head_length_is_zero\<close>). A failed \<open>bind\<close> leaves the
  acceptor open, so the next \<open>run\<close> fails until \<open>stop\<close> (C19). Running again while sessions of
  the last run live makes the session count wrap (C35, \<open>restart_session_count_wraps\<close>). \<open>stop\<close>
  called by a handler on a thread of the pool throws and leaves the acceptor open (C18). A server that has run is never
  destroyed, since its accept keeps it alive (C21). A \<open>run\<close> of any server resets the session
  numbers of all servers in the process, so live sessions can share a number (C26). \<open>initLog\<close> with invalid options uses up
  the only call (C25). A gzip header with an empty extra field is not parsed (C29). A second
  \<open>send\<close> mixes two responses (C33).
\<close>

section \<open>From registration to answer\<close>
















section \<open>Two answers to one request\<close>

lemma filled_header_body:
  "response_laws B \<Longrightarrow> m_body B (filled_header B opts req rsp m) = m_body B m
     \<and> m_status B (filled_header B opts req rsp m) = status_code (rsp_status rsp)"
  by (simp add: filled_header_def Let_def response_simps put_all_headers)

lemma fill_response_body:
  assumes "response_laws B" and "rq_method req \<noteq> verb_head B"
  shows "m_body B (fill_response B opts req rsp m) = m_body B m @ wire_body B opts req rsp
    \<and> m_status B (fill_response B opts req rsp m) = status_code (rsp_status rsp)"
  using assms by (simp add: fill_response_eq response_simps filled_header_body)

text \<open>
  C33. Nothing stops a handler from using its writer twice, and the contract \<open>one_reply\<close> of the
  other properties is needed: after a second \<open>send\<close> two writes are outstanding on the
  connection, and the body of the second response is the first one's body followed by its
  own, since the message object is cleared only when a write completes.
\<close>

theorem second_send_mixes_bodies:
  assumes "response_laws B" and "clean_response B (ses_response (sw_session w))"
    and "ses_pending (sw_session w) = []"
    and "req = ses_request (sw_session w)" and "rq_method req \<noteq> verb_head B"
  shows "\<exists>m1 m2. ses_pending (sw_session (send_all B opts [rsp1, rsp2] w)) =
       [Async_Write m1 (m_keep_alive B m1), Async_Write m2 (m_keep_alive B m2)]
    \<and> m_body B m1 = wire_body B opts req rsp1
    \<and> m_body B m2 = wire_body B opts req rsp1 @ wire_body B opts req rsp2
    \<and> m_status B m2 = status_code (rsp_status rsp2)"
proof -
  let ?m1 = "fill_response B opts req rsp1 (ses_response (sw_session w))"
  let ?m2 = "fill_response B opts req rsp2 ?m1"
  have "ses_pending (sw_session (send_all B opts [rsp1, rsp2] w)) =
       [Async_Write ?m1 (m_keep_alive B ?m1), Async_Write ?m2 (m_keep_alive B ?m2)]"
    using assms(3) by (simp add: writeResponse_def doWrite_def assms(4))
  then show ?thesis
    using fill_response_body [OF assms(1,5)] assms(2) by (auto simp: clean_response_def)
qed

theorem second_send_mixes_bodies_witness:
  "\<exists>m1 m2. ses_pending (sw_session (send_all ref_boost default_options
       [new_HttpResponse OK ''one'' ''text/plain'', new_HttpResponse OK ''two'' ''text/plain'']
       (demo_world demo_request))) =
       [Async_Write m1 (m_keep_alive ref_boost m1), Async_Write m2 (m_keep_alive ref_boost m2)]
    \<and> m_body ref_boost m2 = ''onetwo''"
proof -
  have "wire_body ref_boost default_options demo_request (new_HttpResponse OK x ''text/plain'') = x"
    if "length x \<le> 500" for x
    using that by (simp add: wire_body_def use_gzip_def new_HttpResponse_def)
  with second_send_mixes_bodies [where w = "demo_world demo_request" and req = demo_request
      and B = ref_boost and opts = default_options
      and ?rsp1.0 = "new_HttpResponse OK ''one'' ''text/plain''"
      and ?rsp2.0 = "new_HttpResponse OK ''two'' ''text/plain''",
      OF ref_response_laws demo_clean _ _ demo_not_head]
  show ?thesis by (fastforce simp: demo_world_sels)
qed

section \<open>The demo program\<close>

text \<open>
  C34. The demo program, when the network calls succeed and the path \<open>/hello\<close> has the one segment,
  enters the event loop with the log level set, eight threads (the calling one and seven
  more) and a router that gives its handler for \<open>/hello\<close> and everything below it, and no
  handler for any other path.
\<close>

theorem demo_main_ready:
  fixes B :: "'m boost"
  assumes laws: "spdlog_laws S" and path: "segments_view B ''/hello'' = Inr [''hello'']"
  shows "\<exists>st' impl. demo_main S B good_net st = (st', Some (Inr (None, Some impl)))
    \<and> getLogLevel S st' = Info \<and> server_started impl \<and> srv_threads impl + 1 = 8
    \<and> (\<forall>rest. search_segments (''hello'' # rest) (srv_router impl) = Some (Some 0))
    \<and> (\<forall>x rest. x \<noteq> ''hello'' \<longrightarrow> search_segments (x # rest) (srv_router impl) = Some None)"
proof -
  let ?new = "new_HttpServerImpl demo_options :: ('m, nat) http_server_impl"
  obtain r :: "nat http_router" where
    r: "insert_segments [''hello''] 0 new_HttpRouter = Some r" "router_wf r"
    "table_of r = route_insert [''hello''] 0 route_empty"
    using tree.register_ok [OF router_wf_new, of "[''hello'']" 0] by (auto simp: table_of_new)
  have reg: "registerHandler B ''/hello'' (Some 0) ?new = Inr (?new\<lparr>srv_router := r\<rparr>)"
    using r(1) path by (simp add: registerHandler_def router_insert_def new_HttpServerImpl_def)
  have run: "server_run good_net (?new\<lparr>srv_router := r\<rparr>) = (None, running_state (?new\<lparr>srv_router := r\<rparr>))"
    by (simp add: server_run_None_iff good_net_def demo_options_def default_options_def new_HttpServerImpl_def)
  then have started: "server_started (running_state (?new\<lparr>srv_router := r\<rparr>))"
    using r(2) unfolding server_started_def by blast
  have node: "longest_node (rt_node (table_of r)) ks = (if ks \<noteq> [] \<and> hd ks = ''hello'' then [''hello''] else [])"
    for ks
    by (cases ks; rule longest_node_eq) (auto simp: r(3) route_empty_def prefix_Cons split: if_splits)
  have "search_segments (''hello'' # rest) r = Some (Some 0)" for rest
    using node by (simp add: tree.lookup_ok [OF r(2)] route_search_def key_prefix_def r(3))
  moreover have "search_segments (x # rest) r = Some None" if "x \<noteq> ''hello''" for x rest
    using node [of "key_prefix (x # rest)"] that
    by (simp add: tree.lookup_ok [OF r(2)] route_search_def key_prefix_def split: if_splits)
  moreover have "demo_main S B good_net st =
      (setLogLevel S Info st, Some (Inr (None, Some (running_state (?new\<lparr>srv_router := r\<rparr>)))))"
    by (simp add: demo_main_def HttpServer_registerHandler_def HttpServer_run_def new_HttpServer_def reg run)
  moreover have "getLogLevel S (setLogLevel S Info st) = Info"
    by (rule get_set_level [OF laws]) simp
  ultimately show ?thesis
    using started by (auto simp: running_state_def new_HttpServerImpl_def demo_options_def)
qed

theorem demo_main_ready_witness:
  "\<exists>st' impl. demo_main ref_spdlog ref_boost good_net ref_log_state = (st', Some (Inr (None, Some impl)))
    \<and> search_segments [''hello'', ''abc''] (srv_router impl) = Some (Some 0)"
proof -
  have "segments_view ref_boost ''/hello'' = Inr [''hello'']"
    by (simp add: ref_boost_def ref_segments_def)
  from demo_main_ready [OF ref_spdlog_laws this, of ref_log_state] show ?thesis by blast
qed

end
